theory Spec2Isabelle
  imports Complex_Main "HOL-Library.Char_ord" "HOL-Library.List_Lexorder"
begin

section \<open>Data model\<close>

text \<open>
  The weather pipeline of \<^verbatim>\<open>build_weather_page.py\<close> works on pandas data frames.
  A frame is modelled as the list of its rows, in row order, together with one flag per
  optional column saying whether the column exists. A float cell is a \<open>rat option\<close>:
  \<open>None\<close> is the missing value (NaN), \<open>Some q\<close> a finite number, computed exactly; the
  infinite floats are left out, except in the second model of the rate branch of the rain
  normalizer, where they change the outcome.
  A timestamp (\<^verbatim>\<open>datetime64[ns]\<close>) is the integer number of nanoseconds since the epoch;
  rows whose timestamp is missing are dropped by \<^verbatim>\<open>parse_station_csv\<close> before any function
  modelled here sees them.

  Where \<^verbatim>\<open>sort_values\<close> sorts rows whose keys are all different, the result is the one
  sorted list of the rows and is written \<open>sort_key\<close>; the rain frame reaches the normalizer
  deduplicated by timestamp. Where a key can occur twice, which is the merge of a batch into
  an archive, the sort is modelled as numpy runs it (see \<open>sort_values\<close> below).
\<close>

type_synonym timestamp = int
type_synonym cell = "rat option"

record timed =
  Time :: timestamp

record rain_row = timed +
  rain_rate_mmh :: cell
  rain_raw :: cell

record rain_df =
  has_rain_rate_mmh :: bool
  has_rain_raw :: bool
  rain_rows :: "rain_row list"

section \<open>Column operations of pandas used by the pipeline\<close>

definition notna_any :: "cell list \<Rightarrow> bool" where
  "notna_any col = list_ex (\<lambda>c. c \<noteq> None) col"

definition fillna :: "rat \<Rightarrow> cell \<Rightarrow> cell" where
  "fillna d c = (case c of None \<Rightarrow> Some d | Some v \<Rightarrow> Some v)"

text \<open>\<^verbatim>\<open>Series.diff()\<close>: the first entry is missing, every other entry is the difference to
  the entry before it, missing when either of the two is.\<close>

definition sub_na :: "cell \<Rightarrow> cell \<Rightarrow> cell" where
  "sub_na b a = (case (b, a) of (Some y, Some x) \<Rightarrow> Some (y - x) | _ \<Rightarrow> None)"

definition mul_na :: "cell \<Rightarrow> cell \<Rightarrow> cell" where
  "mul_na a b = (case (a, b) of (Some x, Some y) \<Rightarrow> Some (x * y) | _ \<Rightarrow> None)"

fun diff_from :: "cell \<Rightarrow> cell list \<Rightarrow> cell list" where
  "diff_from p [] = []"
| "diff_from p (c # cs) = sub_na c p # diff_from c cs"

definition diff :: "cell list \<Rightarrow> cell list" where
  "diff col = diff_from None col"

text \<open>A comparison with a missing value is false.\<close>

definition ge_na :: "cell \<Rightarrow> rat \<Rightarrow> bool" where
  "ge_na c d = (case c of None \<Rightarrow> False | Some v \<Rightarrow> v \<ge> d)"

definition lt_na :: "cell \<Rightarrow> rat \<Rightarrow> bool" where
  "lt_na c d = (case c of None \<Rightarrow> False | Some v \<Rightarrow> v < d)"

definition gt_na :: "cell \<Rightarrow> rat \<Rightarrow> bool" where
  "gt_na c d = (case c of None \<Rightarrow> False | Some v \<Rightarrow> v > d)"

text \<open>The mean of a boolean column: the share of true entries, missing for an empty column.\<close>

definition mean_bool :: "bool list \<Rightarrow> cell" where
  "mean_bool bs =
     (if bs = [] then None
      else Some (of_nat (length (filter (\<lambda>b. b) bs)) / of_nat (length bs)))"

text \<open>\<^verbatim>\<open>Time.diff().dt.total_seconds().div(3600.0)\<close> on nanosecond timestamps.\<close>

definition time_cells :: "timestamp list \<Rightarrow> cell list" where
  "time_cells ts = map (\<lambda>t. Some (of_int t)) ts"

definition total_seconds :: "cell \<Rightarrow> cell" where
  "total_seconds c = (case c of None \<Rightarrow> None | Some ns \<Rightarrow> Some (ns / 1000000000))"

definition div_na :: "cell \<Rightarrow> rat \<Rightarrow> cell" where
  "div_na c d = (case c of None \<Rightarrow> None | Some v \<Rightarrow> Some (v / d))"

section \<open>The rain normalizer\<close>

definition sort_values_rain :: "rain_df \<Rightarrow> rain_df" where
  "sort_values_rain df = df\<lparr>rain_rows := sort_key Time (rain_rows df)\<rparr>"

definition rain_to_interval_mm :: "rain_df \<Rightarrow> cell list" where
  "rain_to_interval_mm rain_df0 =
     (let rain_df = sort_values_rain rain_df0;
          rs = rain_rows rain_df
      in if has_rain_rate_mmh rain_df \<and> notna_any (map rain_rate_mmh rs) then
           (let rate = map (fillna 0) (map rain_rate_mmh rs);
                dt = map (fillna 0)
                       (map (\<lambda>c. div_na (total_seconds c) 3600) (diff (time_cells (map Time rs))));
                mm = map2 mul_na rate dt
            in map (\<lambda>v. if lt_na v 0 then Some 0 else v) mm)
         else if has_rain_raw rain_df \<and> notna_any (map rain_raw rs) then
           (let raw = map rain_raw rs;
                dif = diff raw;
                nondec_ratio = mean_bool (map (\<lambda>d. ge_na (fillna 0 d) 0) dif)
            in if gt_na nondec_ratio (9 / 10) then
                 map (fillna 0) (map (\<lambda>d. if ge_na d 0 then d else Some 0) dif)
               else raw)
         else replicate (length rs) None)"

text \<open>A frame with only a raw column, from the list of its values at consecutive seconds.\<close>

definition raw_frame :: "cell list \<Rightarrow> rain_df" where
  "raw_frame col =
     \<lparr>has_rain_rate_mmh = False, has_rain_raw = True,
      rain_rows = map (\<lambda>(i, c). \<lparr>Time = int i * 1000000000, rain_rate_mmh = None, rain_raw = c\<rparr>)
                    (enumerate 0 col)\<rparr>"

subsection \<open>Notions for the properties of the rain normalizer\<close>

text \<open>The rate of a row with a missing rate counted as zero, and the hours between a row and
  the row before it (zero for the first row).\<close>

definition rate_or_zero :: "rain_row \<Rightarrow> rat" where
  "rate_or_zero r = (case rain_rate_mmh r of None \<Rightarrow> 0 | Some q \<Rightarrow> q)"

definition hours_since_previous :: "rain_row list \<Rightarrow> nat \<Rightarrow> rat" where
  "hours_since_previous rs i =
     (if i = 0 then 0 else of_int (Time (rs ! i) - Time (rs ! (i - 1))) / 1000000000 / 3600)"

text \<open>The intervals of a cumulative counter: zero for the first row and wherever one of the
  two neighbouring values is missing, otherwise the difference, negative ones raised to zero.\<close>

definition counter_intervals :: "cell list \<Rightarrow> cell list" where
  "counter_intervals raw =
     map (\<lambda>i. if i = 0 then Some 0
              else (case (raw ! (i - 1), raw ! i) of
                      (Some a, Some b) \<Rightarrow> Some (max 0 (b - a))
                    | _ \<Rightarrow> Some 0))
       [0 ..< length raw]"

text \<open>Counts over the successive differences of a raw column: the negative ones, the
  non-negative ones and the non-missing ones; and the criterion in the words of the
  specification, that at least 90 percent of the non-missing differences are non-negative.\<close>

definition negative_diffs :: "cell list \<Rightarrow> nat" where
  "negative_diffs raw = length (filter (\<lambda>d. lt_na d 0) (diff raw))"

definition nonnegative_diffs :: "cell list \<Rightarrow> nat" where
  "nonnegative_diffs raw = length (filter (\<lambda>d. ge_na d 0) (diff raw))"

definition present_diffs :: "cell list \<Rightarrow> nat" where
  "present_diffs raw = length (filter (\<lambda>d. d \<noteq> None) (diff raw))"

definition spec_at_least_90_percent :: "cell list \<Rightarrow> bool" where
  "spec_at_least_90_percent raw = (9 * present_diffs raw \<le> 10 * nonnegative_diffs raw)"

text \<open>A frame with only a rate column, from its (time, rate) samples; and a number of
  minutes as a duration in nanoseconds.\<close>

definition rate_samples :: "(timestamp \<times> cell) list \<Rightarrow> rain_df" where
  "rate_samples xs =
     \<lparr>has_rain_rate_mmh = True, has_rain_raw = False,
      rain_rows = map (\<lambda>(t, r). \<lparr>Time = t, rain_rate_mmh = r, rain_raw = None\<rparr>) xs\<rparr>"

definition minutes :: "int \<Rightarrow> int" where
  "minutes n = n * 60 * 1000000000"

subsection \<open>The rate branch on infinite rates\<close>

text \<open>
  \<^verbatim>\<open>pd.to_numeric\<close> reads \<^verbatim>\<open>inf\<close> and \<^verbatim>\<open>-inf\<close> as the infinite floats, which the cells above
  leave out. In the rate branch they change the outcome, since \<^verbatim>\<open>inf * 0.0\<close> is NaN, so this
  branch (the first \<^verbatim>\<open>if\<close> of \<^verbatim>\<open>rain_to_interval_mm\<close>) is modelled once more, on a frame that has
  a rate column, given as the pairs of the timestamp and the rate of its rows. A rate is a
  finite number, one of the two infinities or NaN. The result is \<open>None\<close> when the branch is
  not taken, that is when every rate is missing. The time deltas are finite as before.
\<close>

datatype float64 = Finite rat | PosInf | NegInf | NaN

definition float_of_cell :: "cell \<Rightarrow> float64" where
  "float_of_cell c = (case c of None \<Rightarrow> NaN | Some q \<Rightarrow> Finite q)"

definition fillna_float :: "rat \<Rightarrow> float64 \<Rightarrow> float64" where
  "fillna_float d x = (if x = NaN then Finite d else x)"

text \<open>The comparison \<^verbatim>\<open>x < d\<close>, false for NaN, and the product of two floats: NaN when a
  factor is NaN or when an infinity meets zero, else infinite with the sign of the product
  when a factor is.\<close>

definition lt_float :: "float64 \<Rightarrow> rat \<Rightarrow> bool" where
  "lt_float x d = (case x of Finite q \<Rightarrow> q < d | NegInf \<Rightarrow> True | _ \<Rightarrow> False)"

fun mul_float :: "float64 \<Rightarrow> float64 \<Rightarrow> float64" where
  "mul_float (Finite a) (Finite b) = Finite (a * b)"
| "mul_float NaN y = NaN"
| "mul_float x NaN = NaN"
| "mul_float x y =
     (if x = Finite 0 \<or> y = Finite 0 then NaN
      else if lt_float x 0 = lt_float y 0 then PosInf else NegInf)"

definition rain_to_interval_mm_rate :: "(timestamp \<times> float64) list \<Rightarrow> float64 list option" where
  "rain_to_interval_mm_rate rain_df0 =
     (let rain_df = sort_key fst rain_df0
      in if list_ex (\<lambda>x. x \<noteq> NaN) (map snd rain_df) then
           (let rate = map (fillna_float 0) (map snd rain_df);
                dt = map (\<lambda>c. float_of_cell (fillna 0 c))
                       (map (\<lambda>c. div_na (total_seconds c) 3600)
                          (diff (time_cells (map fst rain_df))));
                mm = map2 mul_float rate dt
            in Some (map (\<lambda>v. if lt_float v 0 then Finite 0 else v) mm))
         else None)"

text \<open>For the properties of this branch: the hours between a timestamp and the one before it
  (zero for the first), a float that is a number and not negative, and an infinite float.\<close>

definition hours_since :: "timestamp list \<Rightarrow> nat \<Rightarrow> rat" where
  "hours_since ts i = (if i = 0 then 0 else of_int (ts ! i - ts ! (i - 1)) / 1000000000 / 3600)"

definition nonneg_float :: "float64 \<Rightarrow> bool" where
  "nonneg_float v = (case v of Finite q \<Rightarrow> 0 \<le> q | PosInf \<Rightarrow> True | _ \<Rightarrow> False)"

definition infinite_float :: "float64 \<Rightarrow> bool" where
  "infinite_float x = (x = PosInf \<or> x = NegInf)"

section \<open>Locating the timestamp column\<close>

text \<open>
  Header names are strings of bytes; \<^verbatim>\<open>str.lower()\<close> is modelled on the ASCII letters, which
  is all the keywords \<^verbatim>\<open>date\<close> and \<^verbatim>\<open>time\<close> can match. \<open>str_in kw s\<close> is Python's
  \<^verbatim>\<open>kw in s\<close> on strings: \<open>kw\<close> occurs in \<open>s\<close> as a contiguous substring.
\<close>

text \<open>
  The exceptions a run can end with. \<open>IdxmaxError\<close> is the exception of a \<^verbatim>\<open>groupby\<close>
  \<^verbatim>\<open>idxmax\<close> over a group whose values are all missing: pandas 3 raises a \<^verbatim>\<open>ValueError\<close> from
  \<^verbatim>\<open>idxmax\<close> itself, pandas 2 returns a missing label, on which the \<^verbatim>\<open>.loc\<close> lookup that
  follows raises a \<^verbatim>\<open>KeyError\<close>.
\<close>

datatype error = ValueError | KeyError | IdxmaxError

definition lower_char :: "char \<Rightarrow> char" where
  "lower_char c =
     (if CHR ''A'' \<le> c \<and> c \<le> CHR ''Z'' then char_of (of_char c + (32::nat)) else c)"

definition lower :: "string \<Rightarrow> string" where
  "lower s = map lower_char s"

fun str_in :: "string \<Rightarrow> string \<Rightarrow> bool" where
  "str_in kw [] = (kw = [])"
| "str_in kw (c # cs) = (take (length kw) (c # cs) = kw \<or> str_in kw cs)"

text \<open>\<^verbatim>\<open>find_col\<close>: the first column whose lower-cased name contains one of the keywords.\<close>

fun find_col :: "string list \<Rightarrow> string list \<Rightarrow> string option" where
  "find_col [] keywords = None"
| "find_col (c # cols) keywords =
     (if list_ex (\<lambda>kw. str_in kw (lower c)) keywords then Some c else find_col cols keywords)"

text \<open>Python's truth value of a \<^verbatim>\<open>str | None\<close>: false for \<^verbatim>\<open>None\<close> and for the empty string.\<close>

definition truthy :: "string option \<Rightarrow> bool" where
  "truthy x = (case x of None \<Rightarrow> False | Some c \<Rightarrow> c \<noteq> [])"

text \<open>
  The first step of \<^verbatim>\<open>parse_station_csv\<close>, on the header names of the file: which column or
  columns the timestamps are parsed from, or the \<^verbatim>\<open>ValueError\<close> raised when none is found.
\<close>

datatype time_source = TimeColumn string | DateAndTimeColumns string string

definition parse_station_csv_Time :: "string list \<Rightarrow> error + time_source" where
  "parse_station_csv_Time columns =
     (if ''Time'' \<notin> set columns then
        (let date_col = find_col columns [''date''];
             time_col = find_col columns [''time'']
         in if truthy date_col \<and> truthy time_col
            then Inr (DateAndTimeColumns (the date_col) (the time_col))
            else Inl ValueError)
      else Inr (TimeColumn ''Time''))"

subsection \<open>Notions for the properties of the timestamp column search\<close>

text \<open>\<open>contains_keyword kw c\<close>: the column name \<open>c\<close> contains the keyword, in any letter case;
  \<open>has_keyword\<close>: some column name does; \<open>first_with_keyword\<close>: the first one that does.\<close>

definition contains_keyword :: "string \<Rightarrow> string \<Rightarrow> bool" where
  "contains_keyword kw c = str_in kw (lower c)"

definition has_keyword :: "string \<Rightarrow> string list \<Rightarrow> bool" where
  "has_keyword kw columns = list_ex (contains_keyword kw) columns"

definition first_with_keyword :: "string \<Rightarrow> string list \<Rightarrow> string option" where
  "first_with_keyword kw columns = find (contains_keyword kw) columns"

text \<open>The two patterns in the words of the specification: a column named \<^verbatim>\<open>time\<close> in any
  letter case; and separate date and time columns, two different columns of which one has
  \<^verbatim>\<open>date\<close> and the other \<^verbatim>\<open>time\<close> in its name. \<open>date_and_time_in_one\<close>: a single column
  name contains both words.\<close>

definition spec_time_pattern :: "string list \<Rightarrow> bool" where
  "spec_time_pattern columns = list_ex (\<lambda>c. lower c = ''time'') columns"

definition spec_date_and_time_pattern :: "string list \<Rightarrow> bool" where
  "spec_date_and_time_pattern columns =
     list_ex (\<lambda>d. list_ex (\<lambda>t. d \<noteq> t \<and> contains_keyword ''date'' d \<and> contains_keyword ''time'' t)
                   columns) columns"

definition date_and_time_in_one :: "string list \<Rightarrow> bool" where
  "date_and_time_in_one columns =
     list_ex (\<lambda>c. contains_keyword ''date'' c \<and> contains_keyword ''time'' c) columns"

section \<open>The ingest pipeline\<close>

subsection \<open>Frames of the pipeline\<close>

record met_row = timed +
  temperature_c :: cell
  humidity_rh :: cell
  windspeed_kmh :: cell
  windheading :: cell

record reading = met_row +
  rain_mm :: cell

record met_df =
  has_temperature_c :: bool
  has_humidity_rh :: bool
  has_windspeed_kmh :: bool
  has_windheading :: bool
  met_rows :: "met_row list"

text \<open>
  \<^verbatim>\<open>Parsed(df, kind)\<close>: the kind decides which frame the value carries. An intake file is its
  name and what \<^verbatim>\<open>parse_station_csv\<close> makes of it: a parsed frame, or the exception raised.
\<close>

datatype Parsed = Met met_df | Rain rain_df

record csv_file =
  file_name :: string
  parsed :: "error + Parsed"

subsection \<open>Frame operations\<close>

text \<open>\<^verbatim>\<open>drop_duplicates(subset=[key])\<close>, keeping the first row of each key (the default) or,
  with \<^verbatim>\<open>keep="last"\<close>, the last one. The rows kept stay in their order.\<close>

fun drop_duplicates_first :: "('a \<Rightarrow> 'k) \<Rightarrow> 'a list \<Rightarrow> 'a list" where
  "drop_duplicates_first f [] = []"
| "drop_duplicates_first f (x # xs) = x # drop_duplicates_first f (filter (\<lambda>y. f y \<noteq> f x) xs)"

fun drop_duplicates_last :: "('a \<Rightarrow> 'k) \<Rightarrow> 'a list \<Rightarrow> 'a list" where
  "drop_duplicates_last f [] = []"
| "drop_duplicates_last f (x # xs) =
     (if list_ex (\<lambda>y. f y = f x) xs then drop_duplicates_last f xs
      else x # drop_duplicates_last f xs)"

text \<open>\<^verbatim>\<open>pd.concat(parts, ignore_index=True)\<close>: the rows of the parts one after the other; a
  column is in the result when some part has it, and a part without it contributes missing
  cells.\<close>

definition mask :: "bool \<Rightarrow> cell \<Rightarrow> cell" where
  "mask present c = (if present then c else None)"

definition met_part_rows :: "met_df \<Rightarrow> met_row list" where
  "met_part_rows df =
     map (\<lambda>r. \<lparr>Time = Time r,
               temperature_c = mask (has_temperature_c df) (temperature_c r),
               humidity_rh = mask (has_humidity_rh df) (humidity_rh r),
               windspeed_kmh = mask (has_windspeed_kmh df) (windspeed_kmh r),
               windheading = mask (has_windheading df) (windheading r)\<rparr>)
       (met_rows df)"

definition concat_met :: "met_df list \<Rightarrow> met_df" where
  "concat_met parts =
     \<lparr>has_temperature_c = list_ex has_temperature_c parts,
      has_humidity_rh = list_ex has_humidity_rh parts,
      has_windspeed_kmh = list_ex has_windspeed_kmh parts,
      has_windheading = list_ex has_windheading parts,
      met_rows = concat (map met_part_rows parts)\<rparr>"

definition rain_part_rows :: "rain_df \<Rightarrow> rain_row list" where
  "rain_part_rows df =
     map (\<lambda>r. \<lparr>Time = Time r,
               rain_rate_mmh = mask (has_rain_rate_mmh df) (rain_rate_mmh r),
               rain_raw = mask (has_rain_raw df) (rain_raw r)\<rparr>)
       (rain_rows df)"

definition concat_rain :: "rain_df list \<Rightarrow> rain_df" where
  "concat_rain parts =
     \<lparr>has_rain_rate_mmh = list_ex has_rain_rate_mmh parts,
      has_rain_raw = list_ex has_rain_raw parts,
      rain_rows = concat (map rain_part_rows parts)\<rparr>"

subsection \<open>Reading the intake files\<close>

text \<open>The loop over the files: each is parsed in turn and appended to the parts of its kind;
  the first exception ends the run.\<close>

fun parse_all :: "csv_file list \<Rightarrow> error + (met_df list \<times> rain_df list)" where
  "parse_all [] = Inr ([], [])"
| "parse_all (f # fs) =
     (case parsed f of
        Inl e \<Rightarrow> Inl e
      | Inr p \<Rightarrow>
          (case parse_all fs of
             Inl e \<Rightarrow> Inl e
           | Inr (met_parts, rain_parts) \<Rightarrow>
               (case p of
                  Met df \<Rightarrow> Inr (df # met_parts, rain_parts)
                | Rain df \<Rightarrow> Inr (met_parts, df # rain_parts))))"

text \<open>The meteorological frame and the rain frame of a run: the parts of a kind concatenated,
  deduplicated by timestamp and sorted; the rain frame then goes through the normalizer.\<close>

definition met_frame :: "met_df list \<Rightarrow> met_df" where
  "met_frame met_parts =
     (if met_parts \<noteq> [] then
        (let c = concat_met met_parts
         in c\<lparr>met_rows := sort_key Time (drop_duplicates_first Time (met_rows c))\<rparr>)
      else \<lparr>has_temperature_c = True, has_humidity_rh = True, has_windspeed_kmh = True,
            has_windheading = True, met_rows = []\<rparr>)"

definition rain_frame :: "rain_df list \<Rightarrow> rain_df" where
  "rain_frame rain_parts =
     (let c = concat_rain rain_parts
      in c\<lparr>rain_rows := sort_key Time (drop_duplicates_first Time (rain_rows c))\<rparr>)"

definition rain2_frame :: "rain_df list \<Rightarrow> (timestamp \<times> cell) list" where
  "rain2_frame rain_parts =
     (if rain_parts \<noteq> [] then
        (let rain = rain_frame rain_parts;
             rain_mm = rain_to_interval_mm rain
         in zip (map Time (rain_rows rain)) rain_mm)
      else [])"

subsection \<open>Minute alignment\<close>

text \<open>\<^verbatim>\<open>dt.floor("min")\<close> on nanosecond timestamps.\<close>

definition floor_min :: "timestamp \<Rightarrow> timestamp" where
  "floor_min t = t - t mod 60000000000"

text \<open>\<^verbatim>\<open>idxmax\<close> over the rows of one minute: the first row holding the largest non-missing
  wind speed, nothing when every wind speed of the minute is missing.\<close>

fun idxmax_from :: "met_row option \<Rightarrow> met_row list \<Rightarrow> met_row option" where
  "idxmax_from best [] = best"
| "idxmax_from best (r # rs) =
     idxmax_from
       (case windspeed_kmh r of
          None \<Rightarrow> best
        | Some w \<Rightarrow>
            (case best of
               None \<Rightarrow> Some r
             | Some b \<Rightarrow> if gt_na (Some w) (the (windspeed_kmh b)) then Some r else best))
       rs"

definition idxmax :: "met_row list \<Rightarrow> met_row option" where
  "idxmax rs = idxmax_from None rs"

text \<open>
  The aligned meteorological frame, as pairs of the minute key and the row. In the wind
  branch the \<^verbatim>\<open>idxmax\<close> of a minute with no wind speed at all ends the run, and then
  \<^verbatim>\<open>met.loc[idx_max, ["Time_key", "windspeed_kmh", "windheading"]]\<close> raises a \<^verbatim>\<open>KeyError\<close>
  when the frame has no \<^verbatim>\<open>windheading\<close> column.
\<close>

definition align_met :: "met_df \<Rightarrow> error + (timestamp \<times> met_row) list" where
  "align_met met =
     (if met_rows met \<noteq> [] then
        (let keyed = map (\<lambda>r. (floor_min (Time r), r)) (met_rows met);
             keyed = sort_key fst keyed;
             keyed = sort_key (\<lambda>(k, r). Time r) keyed
         in if has_windspeed_kmh met \<and> notna_any (map (\<lambda>(k, r). windspeed_kmh r) keyed) then
              (let groups = sort (remdups (map fst keyed));
                   idx_max = map (\<lambda>g. (g, idxmax (map snd (filter (\<lambda>(k, r). k = g) keyed)))) groups
               in if list_ex (\<lambda>(g, i). i = None) idx_max then Inl IdxmaxError
                  else if \<not> has_windheading met then Inl KeyError
                  else
                    (let wind_max = map (\<lambda>(g, i). (g, windspeed_kmh (the i), windheading (the i)))
                                      idx_max;
                         others = drop_duplicates_last fst keyed
                     in Inr (map (\<lambda>(k, r).
                                   (case map_of wind_max k of
                                      None \<Rightarrow> (k, r\<lparr>windspeed_kmh := None, windheading := None\<rparr>)
                                    | Some (w, h) \<Rightarrow>
                                        (k, r\<lparr>windspeed_kmh := w, windheading := h\<rparr>)))
                              others)))
            else Inr (drop_duplicates_last fst keyed))
      else Inr [])"

text \<open>\<^verbatim>\<open>groupby("Time_key")["rain_mm"].sum(min_count=1)\<close>: per minute the sum of the
  non-missing values, missing when there is none.\<close>

definition sum_min_count_1 :: "cell list \<Rightarrow> cell" where
  "sum_min_count_1 cs =
     (let vs = map the (filter (\<lambda>c. c \<noteq> None) cs)
      in if vs = [] then None else Some (sum_list vs))"

definition align_rain :: "(timestamp \<times> cell) list \<Rightarrow> (timestamp \<times> cell) list" where
  "align_rain rain2 =
     (if rain2 \<noteq> [] then
        (let keyed = sort_key fst (map (\<lambda>(t, v). (floor_min t, v)) rain2)
         in map (\<lambda>g. (g, sum_min_count_1 (map snd (filter (\<lambda>(k, v). k = g) keyed))))
              (sort (remdups (map fst keyed))))
      else [])"

subsection \<open>Sorting a frame whose key has equal values\<close>

text \<open>
  \<^verbatim>\<open>sort_values("Time")\<close> with no \<^verbatim>\<open>kind\<close> sorts with numpy's \<^verbatim>\<open>argsort\<close> of kind
  \<^verbatim>\<open>quicksort\<close>, which does not keep rows with equal keys in their input order. Where the
  script sorts a frame in which a key can occur twice and then keeps the last row of each key,
  the order among equal keys decides which row is kept, so there the sort is modelled as numpy
  runs it (\<^verbatim>\<open>aquicksort_\<close> and \<^verbatim>\<open>aheapsort_\<close> of \<^verbatim>\<open>npysort\<close>, on the key column \<open>v\<close> and the
  index array \<open>tosort\<close>): ranges of more than 17 entries are partitioned around the median of
  their first, middle and last key, shorter ranges are sorted by insertion, and a range
  reached after more than \<open>2 * floor (log2 n)\<close> partitions is sorted by heapsort. The two
  scans of a partition step stop at the ends of the range, where the C code relies on the
  keys placed there by the median step.
\<close>

definition key_at :: "int list \<Rightarrow> nat list \<Rightarrow> nat \<Rightarrow> int" where
  "key_at v tosort i = v ! (tosort ! i)"

definition INTP_SWAP :: "nat \<Rightarrow> nat \<Rightarrow> nat list \<Rightarrow> nat list" where
  "INTP_SWAP i j tosort = tosort[i := tosort ! j, j := tosort ! i]"

fun npy_get_msb :: "nat \<Rightarrow> nat" where
  "npy_get_msb n = (if n < 2 then 0 else Suc (npy_get_msb (n div 2)))"

text \<open>The scans \<^verbatim>\<open>do ++pi; while (v[*pi] < vp)\<close> and \<^verbatim>\<open>do --pj; while (vp < v[*pj])\<close>, from their
  first test on, and the loop of swaps around them.\<close>

definition scan_up :: "int list \<Rightarrow> nat list \<Rightarrow> int \<Rightarrow> nat \<Rightarrow> nat \<Rightarrow> nat" where
  "scan_up v tosort vp pr i = i + length (takeWhile (\<lambda>k. key_at v tosort k < vp) [i ..< pr])"

definition scan_down :: "int list \<Rightarrow> nat list \<Rightarrow> int \<Rightarrow> nat \<Rightarrow> nat \<Rightarrow> nat" where
  "scan_down v tosort vp pl j =
     j - length (takeWhile (\<lambda>k. vp < key_at v tosort k) (rev [Suc pl ..< Suc j]))"

function hoare ::
  "int list \<Rightarrow> int \<Rightarrow> nat \<Rightarrow> nat \<Rightarrow> nat list \<Rightarrow> nat \<Rightarrow> nat \<Rightarrow> nat list \<times> nat" where
  "hoare v vp pl pr tosort i j =
     (let i = scan_up v tosort vp pr (Suc i);
          j = scan_down v tosort vp pl (j - 1)
      in if i \<ge> j then (tosort, i)
         else hoare v vp pl pr (INTP_SWAP i j tosort) i j)"
  by pat_completeness auto
termination
  by (relation "measure (\<lambda>(v, vp, pl, pr, tosort, i, j). j - i)")
     (auto simp: scan_up_def scan_down_def)

declare hoare.simps [simp del]

definition median3_partition :: "int list \<Rightarrow> nat list \<Rightarrow> nat \<Rightarrow> nat \<Rightarrow> nat list \<times> nat" where
  "median3_partition v tosort pl pr =
     (let pm = pl + (pr - pl) div 2;
          tosort = (if key_at v tosort pm < key_at v tosort pl then INTP_SWAP pm pl tosort else tosort);
          tosort = (if key_at v tosort pr < key_at v tosort pm then INTP_SWAP pr pm tosort else tosort);
          tosort = (if key_at v tosort pm < key_at v tosort pl then INTP_SWAP pm pl tosort else tosort);
          vp = key_at v tosort pm;
          tosort = INTP_SWAP pm (pr - 1) tosort;
          h = hoare v vp pl pr tosort pl (pr - 1)
      in (INTP_SWAP (snd h) (pr - 1) (fst h), snd h))"

text \<open>Insertion sort of the range from \<open>pl\<close> to \<open>pr\<close>.\<close>

function shift_right :: "int list \<Rightarrow> nat \<Rightarrow> int \<Rightarrow> nat list \<Rightarrow> nat \<Rightarrow> nat list \<times> nat" where
  "shift_right v pl vp tosort j =
     (if pl < j \<and> vp < key_at v tosort (j - 1)
      then shift_right v pl vp (tosort[j := tosort ! (j - 1)]) (j - 1)
      else (tosort, j))"
  by pat_completeness auto
termination
  by (relation "measure (\<lambda>(v, pl, vp, tosort, j). j)") auto

declare shift_right.simps [simp del]

definition insert_entry :: "int list \<Rightarrow> nat \<Rightarrow> nat \<Rightarrow> nat list \<Rightarrow> nat list" where
  "insert_entry v pl i tosort =
     (let vi = tosort ! i; vp = v ! vi; s = shift_right v pl vp tosort i
      in (fst s)[snd s := vi])"

definition insertion_sort :: "int list \<Rightarrow> nat list \<Rightarrow> nat \<Rightarrow> nat \<Rightarrow> nat list" where
  "insertion_sort v tosort pl pr = fold (insert_entry v pl) [Suc pl ..< Suc pr] tosort"

text \<open>Heapsort of the \<open>n\<close> entries from \<open>pl\<close> on; the heap is indexed from 1, so its entry \<open>k\<close>
  is the entry \<open>pl + k - 1\<close> of the array.\<close>

function sift :: "int list \<Rightarrow> nat \<Rightarrow> nat \<Rightarrow> nat \<Rightarrow> nat list \<Rightarrow> nat \<Rightarrow> nat \<Rightarrow> nat list" where
  "sift v pl n tmp a i j =
     (if 0 < j \<and> j \<le> n then
        (let j = (if j < n \<and> v ! (a ! (pl + j - 1)) < v ! (a ! (pl + j)) then j + 1 else j)
         in if v ! tmp < v ! (a ! (pl + j - 1))
            then sift v pl n tmp (a[pl + i - 1 := a ! (pl + j - 1)]) j (j + j)
            else a[pl + i - 1 := tmp])
      else a[pl + i - 1 := tmp])"
  by pat_completeness auto
termination
  by (relation "measure (\<lambda>(v, pl, n, tmp, a, i, j). Suc n - j)") auto

declare sift.simps [simp del]

fun heapify :: "int list \<Rightarrow> nat \<Rightarrow> nat \<Rightarrow> nat list \<Rightarrow> nat \<Rightarrow> nat list" where
  "heapify v pl n a 0 = a"
| "heapify v pl n a (Suc l) =
     heapify v pl n (sift v pl n (a ! (pl + Suc l - 1)) a (Suc l) (2 * Suc l)) l"

fun sortdown :: "int list \<Rightarrow> nat \<Rightarrow> nat list \<Rightarrow> nat \<Rightarrow> nat list" where
  "sortdown v pl a 0 = a"
| "sortdown v pl a (Suc m) =
     (if 0 < m
      then sortdown v pl (sift v pl m (a ! (pl + Suc m - 1)) (a[pl + Suc m - 1 := a ! pl]) 1 2) m
      else a)"

definition aheapsort :: "int list \<Rightarrow> nat list \<Rightarrow> nat \<Rightarrow> nat \<Rightarrow> nat list" where
  "aheapsort v tosort pl n = sortdown v pl (heapify v pl n tosort (n div 2)) n"

text \<open>The loop over the stack of ranges: after a partition the smaller part is sorted next and
  the larger one, pushed with the depth left, when its turn comes; only then the depth is
  tested.\<close>

function aquicksort_loop :: "int list \<Rightarrow> int \<Rightarrow> nat list \<Rightarrow> nat \<Rightarrow> nat \<Rightarrow> nat list" where
  "aquicksort_loop v cdepth tosort pl pr =
     (if 16 < pr - pl then
        (let p = median3_partition v tosort pl pr; i = snd p; cdepth = cdepth - 1
         in if i - pl < pr - i then
              (let tosort = aquicksort_loop v cdepth (fst p) pl (i - 1)
               in if cdepth < 0 then aheapsort v tosort (i + 1) (pr - i)
                  else aquicksort_loop v cdepth tosort (i + 1) pr)
            else
              (let tosort = aquicksort_loop v cdepth (fst p) (i + 1) pr
               in if cdepth < 0 then aheapsort v tosort pl (i - pl)
                  else aquicksort_loop v cdepth tosort pl (i - 1)))
      else insertion_sort v tosort pl pr)"
  by pat_completeness auto
termination
proof -
  have scan: "i \<le> pr \<Longrightarrow> i \<le> scan_up v tosort vp pr i \<and> scan_up v tosort vp pr i \<le> pr"
    for v tosort vp pr i
    using length_takeWhile_le [of "\<lambda>k. key_at v tosort k < vp" "[i ..< pr]"]
    by (simp add: scan_up_def)
  have down: "scan_down v tosort vp pl j \<le> j" for v tosort vp pl j
    by (simp add: scan_down_def)
  have hoare_bounds:
    "i < pr \<Longrightarrow> j \<le> pr \<Longrightarrow>
     i < snd (hoare v vp pl pr tosort i j) \<and> snd (hoare v vp pl pr tosort i j) \<le> pr"
    for v vp pl pr tosort i j
  proof (induction v vp pl pr tosort i j rule: hoare.induct)
    case (1 v vp pl pr tosort i j)
    define i' where "i' = scan_up v tosort vp pr (Suc i)"
    define j' where "j' = scan_down v tosort vp pl (j - 1)"
    have i': "Suc i \<le> i'" "i' \<le> pr"
      using scan [of "Suc i" pr v tosort vp] 1(2) by (simp_all add: i'_def)
    have j': "j' \<le> j - 1" using down [of v tosort vp pl "j - 1"] by (simp add: j'_def)
    show ?case
    proof (cases "j' \<le> i'")
      case True
      then have "hoare v vp pl pr tosort i j = (tosort, i')"
        by (subst hoare.simps) (simp add: i'_def j'_def Let_def)
      then show ?thesis using i' by simp
    next
      case False
      then have eq: "hoare v vp pl pr tosort i j = hoare v vp pl pr (INTP_SWAP i' j' tosort) i' j'"
        by (subst hoare.simps) (simp add: i'_def j'_def Let_def)
      have "i' < pr" "j' \<le> pr" using False j' 1(3) by simp_all
      then have "i' < snd (hoare v vp pl pr (INTP_SWAP i' j' tosort) i' j')
        \<and> snd (hoare v vp pl pr (INTP_SWAP i' j' tosort) i' j') \<le> pr"
        using 1(1) [OF i'_def j'_def] False by simp
      then show ?thesis using eq i' by simp
    qed
  qed
  have bounds: "pl < snd (median3_partition v tosort pl pr) \<and> snd (median3_partition v tosort pl pr) \<le> pr"
    if "16 < pr - pl" for v tosort pl pr
    unfolding median3_partition_def Let_def snd_conv using that by (intro hoare_bounds) simp_all
  show ?thesis
  proof (relation "measure (\<lambda>(v, cdepth, tosort, pl, pr). pr - pl)", goal_cases)
    case 1
    show ?case by simp
  next
    case (2 v cdepth tosort pl pr p i cd)
    from bounds [OF 2(1), of v tosort] 2 show ?case by auto
  next
    case (3 v cdepth tosort pl pr p i cd ts)
    from bounds [OF 3(1), of v tosort] 3 show ?case by auto
  next
    case (4 v cdepth tosort pl pr p i cd)
    from bounds [OF 4(1), of v tosort] 4 show ?case by auto
  next
    case (5 v cdepth tosort pl pr p i cd ts)
    from bounds [OF 5(1), of v tosort] 5 show ?case by auto
  qed
qed

declare aquicksort_loop.simps [simp del]

definition aquicksort :: "int list \<Rightarrow> nat list" where
  "aquicksort v =
     (let num = length v; cdepth = 2 * int (npy_get_msb num)
      in aquicksort_loop v cdepth [0 ..< num] 0 (num - 1))"

text \<open>\<^verbatim>\<open>df.sort_values(key)\<close>: the rows in the order of the sorted index array.\<close>

definition sort_values :: "('a \<Rightarrow> int) \<Rightarrow> 'a list \<Rightarrow> 'a list" where
  "sort_values key rows = map ((!) rows) (aquicksort (map key rows))"

subsection \<open>Merging the two streams and the master store\<close>

text \<open>One reading per minute key: the fields of the meteorological row of that key, if
  there is one, and the rain value of that key, if there is one.\<close>

definition reading_of :: "timestamp \<Rightarrow> met_row option \<Rightarrow> cell option \<Rightarrow> reading" where
  "reading_of k m r =
     \<lparr>Time = k,
      temperature_c = (case m of None \<Rightarrow> None | Some x \<Rightarrow> temperature_c x),
      humidity_rh = (case m of None \<Rightarrow> None | Some x \<Rightarrow> humidity_rh x),
      windspeed_kmh = (case m of None \<Rightarrow> None | Some x \<Rightarrow> windspeed_kmh x),
      windheading = (case m of None \<Rightarrow> None | Some x \<Rightarrow> windheading x),
      rain_mm = (case r of None \<Rightarrow> None | Some v \<Rightarrow> v)\<rparr>"

text \<open>The frame \<^verbatim>\<open>merged\<close>: the outer join of the aligned streams on the minute key when
  both have rows, else the one that has rows with the other's fields missing; the minute key
  becomes the timestamp and the rows are sorted by it.\<close>

definition merged_frame ::
  "(timestamp \<times> met_row) list \<Rightarrow> (timestamp \<times> cell) list \<Rightarrow> reading list" where
  "merged_frame met rain2 =
     (let merged =
        (if met \<noteq> [] \<and> rain2 \<noteq> [] then
           map (\<lambda>k. reading_of k (map_of met k) (map_of rain2 k))
             (sort (remdups (map fst met @ map fst rain2)))
         else if met \<noteq> [] then map (\<lambda>(k, m). reading_of k (Some m) None) met
         else map (\<lambda>(k, v). reading_of k None (Some v)) rain2)
      in sort_key Time merged)"

text \<open>\<^verbatim>\<open>master2["windheading"].ffill()\<close>: a missing heading takes the last heading seen
  before it, if any.\<close>

fun ffill_from :: "cell \<Rightarrow> reading list \<Rightarrow> reading list" where
  "ffill_from prev [] = []"
| "ffill_from prev (r # rs) =
     (case windheading r of
        None \<Rightarrow> r\<lparr>windheading := prev\<rparr> # ffill_from prev rs
      | Some h \<Rightarrow> r # ffill_from (Some h) rs)"

definition ffill_windheading :: "reading list \<Rightarrow> reading list" where
  "ffill_windheading rs = ffill_from None rs"

text \<open>
  The end of \<^verbatim>\<open>ingest_import_folder\<close>: the batch is appended to the archive, the whole is
  sorted by time, where a timestamp of the batch that the archive has occurs twice, and
  deduplicated keeping the last row of each timestamp; the headings are forward-filled and
  the frame is what \<^verbatim>\<open>save_master\<close> writes (sorted once more). The result is the saved archive
  with the two counts \<^verbatim>\<open>imported_rows\<close> and \<^verbatim>\<open>dedup_removed\<close>.
\<close>

definition merge_into_master :: "reading list \<Rightarrow> reading list \<Rightarrow> reading list \<times> int \<times> int" where
  "merge_into_master master merged =
     (let before = int (length master);
          imported_rows = int (length merged);
          master2 = drop_duplicates_last Time (sort_values Time (master @ merged));
          after = int (length master2);
          dedup_removed = (before + imported_rows) - after;
          master2 = ffill_windheading (sort_key Time master2)
      in (sort_key Time master2, imported_rows, dedup_removed))"

subsection \<open>The files of the station and the whole run\<close>

text \<open>
  The directories and files the script reads and writes. \<open>IMPORT_DIR\<close> holds the
  \<^verbatim>\<open>*.csv\<close> files of \<^verbatim>\<open>importer/\<close>, \<open>PARQUET_FILE\<close> the archive when the file exists,
  \<open>DATA_DIR\<close> the monthly extracts by file name; \<^verbatim>\<open>data/snow.json\<close> and
  \<^verbatim>\<open>data/manifest.json\<close> are kept apart from them. \<open>SNOW_CSV_FILE\<close> is, when the file
  exists, the frame read from it (date and depth, rows without a date dropped) or the
  exception that reading it raises.
\<close>

record snow_row = timed +
  snow_cm :: cell

record month_json =
  json_time :: "string list"
  json_temperature_c :: "cell list"
  json_humidity_rh :: "cell list"
  json_windspeed_kmh :: "cell list"
  json_windheading :: "cell list"
  json_rain_mm :: "cell list"

record disk =
  IMPORT_DIR :: "csv_file list"
  ARCHIVE_DIR :: "csv_file list"
  PARQUET_FILE :: "reading list option"
  SNOW_CSV_FILE :: "(error + snow_row list) option"
  SNOW_PARQUET_FILE :: "snow_row list option"
  DATA_DIR :: "string \<rightharpoonup> month_json"
  SNOW_JSON_FILE :: "(string list \<times> cell list) option"
  MANIFEST_FILE :: "((string \<times> string) list \<times> string) option"
  INDEX_HTML :: bool

definition load_master :: "disk \<Rightarrow> reading list" where
  "load_master s = (case PARQUET_FILE s of Some df \<Rightarrow> df | None \<Rightarrow> [])"

definition load_snow_master :: "disk \<Rightarrow> snow_row list" where
  "load_snow_master s = (case SNOW_PARQUET_FILE s of Some df \<Rightarrow> df | None \<Rightarrow> [])"

text \<open>
  \<^verbatim>\<open>ingest_import_folder\<close>, in two parts. The second part, \<open>ingest_frames\<close>, is the function
  from the minute alignment on: the two frames are aligned and merged into the batch, the
  batch is merged into the archive, the archive is saved and the files are moved to the
  archive directory (their new names, built from the period of the batch, are left out here).
  The first part reads the intake: with no file in the intake directory the function returns
  at once; otherwise the files are read in the order of their names and the frame of each
  kind is built from them. An exception leaves the disk as it was, since the first write is
  \<^verbatim>\<open>save_master\<close>.
\<close>

definition ingest_frames ::
  "disk \<Rightarrow> csv_file list \<Rightarrow> met_df \<Rightarrow> (timestamp \<times> cell) list \<Rightarrow> error + (disk \<times> int \<times> int)" where
  "ingest_frames s files met rain2 =
     (case align_met met of
        Inl e \<Rightarrow> Inl e
      | Inr met_aligned \<Rightarrow>
          (let merged = merged_frame met_aligned (align_rain rain2);
               (master2, imported_rows, dedup_removed) =
                  merge_into_master (load_master s) merged
           in Inr (s\<lparr>PARQUET_FILE := Some master2, IMPORT_DIR := [],
                      ARCHIVE_DIR := ARCHIVE_DIR s @ files\<rparr>,
                   imported_rows, dedup_removed)))"

definition ingest_import_folder :: "disk \<Rightarrow> error + (disk \<times> int \<times> int)" where
  "ingest_import_folder s =
     (let files = sort_key file_name (IMPORT_DIR s)
      in if files = [] then Inr (s, 0, 0)
         else
           (case parse_all files of
              Inl e \<Rightarrow> Inl e
            | Inr (met_parts, rain_parts) \<Rightarrow>
                ingest_frames s files (met_frame met_parts) (rain2_frame rain_parts)))"

text \<open>
  \<^verbatim>\<open>generate_monthly_json\<close>. The formatting of timestamps, \<^verbatim>\<open>dt.strftime(format)\<close>, is a
  parameter. The groups of \<^verbatim>\<open>groupby("month")\<close> come in the order of their labels; one file is
  written per group and the list of months is returned sorted by label, descending.
\<close>

definition month_out :: "(string \<Rightarrow> timestamp \<Rightarrow> string) \<Rightarrow> reading list \<Rightarrow> month_json" where
  "month_out strftime g =
     \<lparr>json_time = map (\<lambda>r. strftime ''%Y-%m-%dT%H:%M:%S'' (Time r)) g,
      json_temperature_c = map temperature_c g,
      json_humidity_rh = map humidity_rh g,
      json_windspeed_kmh = map windspeed_kmh g,
      json_windheading = map windheading g,
      json_rain_mm = map rain_mm g\<rparr>"

definition month_groups ::
  "(string \<Rightarrow> timestamp \<Rightarrow> string) \<Rightarrow> reading list \<Rightarrow> (string \<times> reading list) list" where
  "month_groups strftime master =
     map (\<lambda>m. (m, filter (\<lambda>r. strftime ''%Y-%m'' (Time r) = m) master))
       (sort (remdups (map (\<lambda>r. strftime ''%Y-%m'' (Time r)) master)))"

definition write_month ::
  "(string \<Rightarrow> timestamp \<Rightarrow> string) \<Rightarrow> string \<times> reading list \<Rightarrow> disk \<Rightarrow> disk" where
  "write_month strftime mg s =
     s\<lparr>DATA_DIR := (DATA_DIR s)(fst mg @ ''.json'' \<mapsto> month_out strftime (sort_key Time (snd mg)))\<rparr>"

definition generate_monthly_json ::
  "(string \<Rightarrow> timestamp \<Rightarrow> string) \<Rightarrow> disk \<Rightarrow> disk \<times> (string \<times> string) list" where
  "generate_monthly_json strftime s =
     (let master = load_master s
      in if master = [] then (s, [])
         else
           (let master = sort_key Time master;
                groups = month_groups strftime master;
                months = map (\<lambda>(m, g). (m, m @ ''.json'')) groups
            in (fold (write_month strftime) groups s, rev (sort_key fst (rev months)))))"

text \<open>\<^verbatim>\<open>ingest_snow_file\<close>, from the frame \<^verbatim>\<open>out\<close> read from the ledger file.\<close>

definition ingest_snow_file :: "disk \<Rightarrow> error + (disk \<times> int)" where
  "ingest_snow_file s =
     (case SNOW_CSV_FILE s of
        None \<Rightarrow> Inr (s, 0)
      | Some (Inl e) \<Rightarrow> Inl e
      | Some (Inr out0) \<Rightarrow>
          (let out = sort_values Time out0
           in if out = [] then Inr (s, 0)
              else
                (let out = filter (\<lambda>r. snow_cm r \<noteq> None) out;
                     out = drop_duplicates_last Time out;
                     master = load_snow_master s;
                     master2 = drop_duplicates_last Time (sort_values Time (master @ out))
                 in Inr (s\<lparr>SNOW_PARQUET_FILE := Some (sort_key Time master2)\<rparr>,
                         int (length out)))))"

definition generate_snow_json :: "(string \<Rightarrow> timestamp \<Rightarrow> string) \<Rightarrow> disk \<Rightarrow> disk" where
  "generate_snow_json strftime s =
     (let master = load_snow_master s
      in if master = [] then s\<lparr>SNOW_JSON_FILE := Some ([], [])\<rparr>
         else
           (let master = sort_key Time master
            in s\<lparr>SNOW_JSON_FILE :=
                    Some (map (\<lambda>r. strftime ''%Y-%m-%dT%H:%M:%S'' (Time r)) master,
                          map snow_cm master)\<rparr>))"

definition write_manifest :: "(string \<times> string) list \<Rightarrow> disk \<Rightarrow> disk" where
  "write_manifest months s = s\<lparr>MANIFEST_FILE := Some (months, ''snow.json'')\<rparr>"

definition write_index_html :: "disk \<Rightarrow> disk" where
  "write_index_html s = s\<lparr>INDEX_HTML := True\<rparr>"

text \<open>\<^verbatim>\<open>main\<close>: an exception of the ingest ends the run, one of the snow import is caught.\<close>

definition main :: "(string \<Rightarrow> timestamp \<Rightarrow> string) \<Rightarrow> disk \<Rightarrow> error + disk" where
  "main strftime s0 =
     (case ingest_import_folder s0 of
        Inl e \<Rightarrow> Inl e
      | Inr (s1, imported_rows, dedup_removed) \<Rightarrow>
          (let s2 = (case ingest_snow_file s1 of Inl e \<Rightarrow> s1 | Inr (s, snow_rows) \<Rightarrow> s);
               (s3, months) = generate_monthly_json strftime s2;
               s4 = generate_snow_json strftime s3;
               s5 = write_manifest months s4
           in Inr (write_index_html s5)))"

subsection \<open>Notions for the properties of the master store\<close>

text \<open>\<open>reading_at\<close> builds a reading from a time, a temperature and a heading. For the
  examples: \<open>minute_log n\<close> is an archive of \<open>n\<close> readings, one per minute from minute 0 on,
  the temperature of each being the number of its minute; and \<open>archive_disk\<close> is a disk that
  holds an archive and the files of the intake directory and nothing else.\<close>

definition reading_at :: "int \<Rightarrow> cell \<Rightarrow> cell \<Rightarrow> reading" where
  "reading_at t temp heading =
     \<lparr>Time = t, temperature_c = temp, humidity_rh = None, windspeed_kmh = None,
      windheading = heading, rain_mm = None\<rparr>"

definition minute_log :: "nat \<Rightarrow> reading list" where
  "minute_log n = map (\<lambda>i. reading_at (int i * 60 * 1000000000) (Some (of_nat i)) None) [0 ..< n]"

definition archive_disk :: "reading list \<Rightarrow> csv_file list \<Rightarrow> disk" where
  "archive_disk master files =
     \<lparr>IMPORT_DIR = files,
      ARCHIVE_DIR = [],
      PARQUET_FILE = Some master,
      SNOW_CSV_FILE = None,
      SNOW_PARQUET_FILE = None,
      DATA_DIR = Map.empty,
      SNOW_JSON_FILE = None,
      MANIFEST_FILE = None,
      INDEX_HTML = False\<rparr>"

subsection \<open>Notions for the properties of the intake\<close>

text \<open>The frame of an intake file when it is of the given kind; and small intake files for
  the examples: a meteorological file with a temperature column only, a rain file with a raw
  column only.\<close>

definition met_of :: "csv_file \<Rightarrow> met_df option" where
  "met_of f = (case parsed f of Inr (Met df) \<Rightarrow> Some df | _ \<Rightarrow> None)"

definition rain_of :: "csv_file \<Rightarrow> rain_df option" where
  "rain_of f = (case parsed f of Inr (Rain df) \<Rightarrow> Some df | _ \<Rightarrow> None)"

definition met_sample :: "timestamp \<Rightarrow> rat \<Rightarrow> met_row" where
  "met_sample t temp =
     \<lparr>Time = t, temperature_c = Some temp, humidity_rh = None, windspeed_kmh = None,
      windheading = None\<rparr>"

definition met_file :: "string \<Rightarrow> met_row list \<Rightarrow> csv_file" where
  "met_file n rs =
     \<lparr>file_name = n,
      parsed = Inr (Met \<lparr>has_temperature_c = True, has_humidity_rh = False,
                          has_windspeed_kmh = False, has_windheading = False, met_rows = rs\<rparr>)\<rparr>"

definition rain_file :: "string \<Rightarrow> (timestamp \<times> cell) list \<Rightarrow> csv_file" where
  "rain_file n xs =
     \<lparr>file_name = n,
      parsed = Inr (Rain \<lparr>has_rain_rate_mmh = False, has_rain_raw = True,
                           rain_rows = map (\<lambda>(t, c). \<lparr>Time = t, rain_rate_mmh = None, rain_raw = c\<rparr>) xs\<rparr>)\<rparr>"

subsection \<open>Notions for the properties of the whole run\<close>

text \<open>The extract files a run writes and the list of months of its manifest, as functions of
  the archive alone. For the examples: the formatting of timestamps within January and
  February 1970, and a disk on which nothing exists but one intake file.\<close>

definition extract_writes ::
  "(string \<Rightarrow> timestamp \<Rightarrow> string) \<Rightarrow> reading list \<Rightarrow> (string \<times> month_json) list" where
  "extract_writes strftime master =
     (if master = [] then []
      else map (\<lambda>mg. (fst mg @ ''.json'', month_out strftime (sort_key Time (snd mg))))
             (month_groups strftime (sort_key Time master)))"

definition manifest_months ::
  "(string \<Rightarrow> timestamp \<Rightarrow> string) \<Rightarrow> reading list \<Rightarrow> (string \<times> string) list" where
  "manifest_months strftime master =
     (if master = [] then []
      else rev (sort_key fst (rev (map (\<lambda>(m, g). (m, m @ ''.json''))
                                     (month_groups strftime (sort_key Time master))))))"

definition two_digits :: "int \<Rightarrow> string" where
  "two_digits n = [char_of (48 + n div 10), char_of (48 + n mod 10)]"

definition strftime_1970 :: "string \<Rightarrow> timestamp \<Rightarrow> string" where
  "strftime_1970 fmt t =
     (let s = t div 1000000000;
          d = s div 86400;
          month = (if d < 31 then 1 else 2);
          day = (if d < 31 then d + 1 else d - 30);
          ym = ''1970-'' @ two_digits month
      in if fmt = ''%Y-%m'' then ym
         else ym @ ''-'' @ two_digits day @ ''T'' @ two_digits (s mod 86400 div 3600) @ '':''
              @ two_digits (s mod 3600 div 60) @ '':'' @ two_digits (s mod 60))"

definition first_run_disk :: disk where
  "first_run_disk =
     \<lparr>IMPORT_DIR = [met_file ''a.csv'' [met_sample (minutes 5) 1, met_sample (minutes 50000) 2]],
      ARCHIVE_DIR = [],
      PARQUET_FILE = None,
      SNOW_CSV_FILE = None,
      SNOW_PARQUET_FILE = None,
      DATA_DIR = Map.empty,
      SNOW_JSON_FILE = None,
      MANIFEST_FILE = None,
      INDEX_HTML = False\<rparr>"

subsection \<open>Notions for the properties of the minute alignment\<close>

text \<open>
  \<open>minute_rows met k\<close> are the rows of the minute \<open>k\<close>, in row order, and
  \<open>is_max_wind_row rs m\<close> says that \<open>m\<close> is a row of \<open>rs\<close> whose wind speed is present and is the
  largest one of \<open>rs\<close>. \<open>keyed_rows\<close>, \<open>minute_keys\<close> and \<open>wind_of_minute\<close> name the intermediate
  frames of the alignment. For the examples: a meteorological row from its time, temperature,
  wind speed and heading, a frame with a wind speed column and, or not, a heading column, and
  a disk whose one intake file has wind speeds and no heading column.
\<close>

definition seconds :: "int \<Rightarrow> int" where
  "seconds n = n * 1000000000"

definition wind_sample :: "timestamp \<Rightarrow> cell \<Rightarrow> cell \<Rightarrow> cell \<Rightarrow> met_row" where
  "wind_sample t temp speed heading =
     \<lparr>Time = t, temperature_c = temp, humidity_rh = None, windspeed_kmh = speed,
      windheading = heading\<rparr>"

definition is_max_wind_row :: "met_row list \<Rightarrow> met_row \<Rightarrow> bool" where
  "is_max_wind_row rs m =
     (m \<in> set rs \<and>
      (\<exists>w. windspeed_kmh m = Some w \<and>
           (\<forall>r \<in> set rs. \<forall>v. windspeed_kmh r = Some v \<longrightarrow> v \<le> w)))"

definition minute_rows :: "met_df \<Rightarrow> timestamp \<Rightarrow> met_row list" where
  "minute_rows met k = filter (\<lambda>r. floor_min (Time r) = k) (met_rows met)"

definition keyed_rows :: "met_df \<Rightarrow> (timestamp \<times> met_row) list" where
  "keyed_rows met = map (\<lambda>r. (floor_min (Time r), r)) (met_rows met)"

definition minute_keys :: "met_df \<Rightarrow> timestamp list" where
  "minute_keys met = sort (remdups (map (\<lambda>r. floor_min (Time r)) (met_rows met)))"

definition wind_of_minute :: "met_df \<Rightarrow> timestamp \<Rightarrow> cell \<times> cell" where
  "wind_of_minute met g =
     (windspeed_kmh (the (idxmax (minute_rows met g))),
      windheading (the (idxmax (minute_rows met g))))"

definition wind_frame :: "bool \<Rightarrow> met_row list \<Rightarrow> met_df" where
  "wind_frame heading_column rs =
     \<lparr>has_temperature_c = True, has_humidity_rh = False, has_windspeed_kmh = True,
      has_windheading = heading_column, met_rows = rs\<rparr>"

definition wind_file_disk :: disk where
  "wind_file_disk =
     \<lparr>IMPORT_DIR =
        [\<lparr>file_name = ''met.csv'',
          parsed = Inr (Met (wind_frame False
                     [wind_sample (seconds 43205) (Some 1) (Some 3) None,
                      wind_sample (seconds 43240) (Some 2) (Some 7) None]))\<rparr>],
      ARCHIVE_DIR = [],
      PARQUET_FILE = None,
      SNOW_CSV_FILE = None,
      SNOW_PARQUET_FILE = None,
      DATA_DIR = Map.empty,
      SNOW_JSON_FILE = None,
      MANIFEST_FILE = None,
      INDEX_HTML = False\<rparr>"

section \<open>Properties of the rain normalizer\<close>

lemma length_diff_from: "length (diff_from p xs) = length xs"
  by (induction xs arbitrary: p) auto

lemma nth_diff_from:
  "i < length xs \<Longrightarrow> diff_from p xs ! i = sub_na (xs ! i) (if i = 0 then p else xs ! (i - 1))"
proof (induction xs arbitrary: p i)
  case Nil then show ?case by simp
next
  case (Cons x xs)
  show ?case
  proof (cases i)
    case 0 then show ?thesis by simp
  next
    case (Suc j)
    with Cons show ?thesis by (cases j) auto
  qed
qed

lemma length_diff: "length (diff xs) = length xs"
  by (simp add: diff_def length_diff_from)

lemma nth_diff:
  "i < length xs \<Longrightarrow> diff xs ! i = (if i = 0 then None else sub_na (xs ! i) (xs ! (i - 1)))"
  by (simp add: diff_def nth_diff_from sub_na_def split: option.splits)

lemma rate_branch:
  assumes "has_rain_rate_mmh df" "notna_any (map rain_rate_mmh (rain_rows df))"
  shows "rain_to_interval_mm df =
     map (\<lambda>i. Some (max 0 (rate_or_zero (sort_key Time (rain_rows df) ! i)
                      * hours_since_previous (sort_key Time (rain_rows df)) i)))
       [0 ..< length (rain_rows df)]"
proof -
  let ?rs = "sort_key Time (rain_rows df)"
  have any: "notna_any (map rain_rate_mmh ?rs)"
    using assms(2) by (simp add: notna_any_def list_ex_iff)
  have "rain_to_interval_mm df =
     map (\<lambda>v. if lt_na v 0 then Some 0 else v)
       (map2 mul_na (map (fillna 0) (map rain_rate_mmh ?rs))
          (map (fillna 0) (map (\<lambda>c. div_na (total_seconds c) 3600) (diff (time_cells (map Time ?rs))))))"
    using assms(1) any by (simp add: rain_to_interval_mm_def sort_values_rain_def Let_def)
  also have "\<dots> = map (\<lambda>i. Some (max 0 (rate_or_zero (?rs ! i) * hours_since_previous ?rs i)))
       [0 ..< length (rain_rows df)]"
    by (rule nth_equalityI)
       (auto simp: length_diff time_cells_def nth_diff fillna_def mul_na_def lt_na_def div_na_def
          total_seconds_def sub_na_def rate_or_zero_def hours_since_previous_def max_def of_int_diff
          split: option.splits)
  finally show ?thesis .
qed

lemma count_true_map:
  "length (filter (\<lambda>b. b) (map P xs)) + length (filter (\<lambda>x. \<not> P x) xs) = length xs"
  by (induction xs) auto

lemma not_ge_fillna: "(\<not> ge_na (fillna 0 d) 0) = lt_na d 0"
  by (cases d) (auto simp: ge_na_def fillna_def lt_na_def)

lemma nondec_ratio_gt:
  assumes "ds \<noteq> []"
  shows "gt_na (mean_bool (map (\<lambda>d. ge_na (fillna 0 d) 0) ds)) (9 / 10)
         = (10 * length (filter (\<lambda>d. lt_na d 0) ds) < length ds)"
proof -
  let ?a = "length (filter (\<lambda>b. b) (map (\<lambda>d. ge_na (fillna 0 d) 0) ds))"
  let ?k = "length (filter (\<lambda>d. lt_na d 0) ds)"
  let ?n = "length ds"
  have sum: "?a + ?k = ?n"
    using count_true_map [of "\<lambda>d. ge_na (fillna 0 d) 0" ds] by (simp add: not_ge_fillna)
  have n: "0 < ?n" using assms by simp
  have "gt_na (mean_bool (map (\<lambda>d. ge_na (fillna 0 d) 0) ds)) (9 / 10)
        = ((9::rat) / 10 < of_nat ?a / of_nat ?n)"
    using assms by (simp add: mean_bool_def gt_na_def)
  also have "\<dots> = ((9::rat) * of_nat ?n < 10 * of_nat ?a)"
    using n by (simp add: field_simps)
  also have "\<dots> = (9 * ?n < 10 * ?a)"
    by (metis (no_types, lifting) of_nat_less_iff of_nat_mult of_nat_numeral)
  also have "\<dots> = (10 * ?k < ?n)"
    using sum by arith
  finally show ?thesis .
qed

lemma counter_output:
  "map (fillna 0) (map (\<lambda>d. if ge_na d 0 then d else Some 0) (diff raw)) = counter_intervals raw"
  by (rule nth_equalityI)
     (auto simp: length_diff nth_diff counter_intervals_def fillna_def ge_na_def sub_na_def max_def
        split: option.splits)

lemma raw_branch:
  assumes "\<not> (has_rain_rate_mmh df \<and> notna_any (map rain_rate_mmh (rain_rows df)))"
    and "has_rain_raw df" and "notna_any (map rain_raw (rain_rows df))"
  shows "rain_to_interval_mm df =
     (let raw = map rain_raw (sort_key Time (rain_rows df))
      in if 10 * negative_diffs raw < length raw then counter_intervals raw else raw)"
proof -
  let ?rs = "sort_key Time (rain_rows df)"
  let ?raw = "map rain_raw ?rs"
  have norate: "(has_rain_rate_mmh df \<and> notna_any (map rain_rate_mmh ?rs)) = False"
    using assms(1) by (simp add: notna_any_def list_ex_iff)
  have any: "notna_any ?raw"
    using assms(3) by (simp add: notna_any_def list_ex_iff)
  then have ne: "diff ?raw \<noteq> []"
    by (auto simp: notna_any_def list_ex_iff diff_def dest: arg_cong [where f = length] simp: length_diff_from)
  have "rain_to_interval_mm df =
     (if gt_na (mean_bool (map (\<lambda>d. ge_na (fillna 0 d) 0) (diff ?raw))) (9 / 10)
      then map (fillna 0) (map (\<lambda>d. if ge_na d 0 then d else Some 0) (diff ?raw))
      else ?raw)"
    using assms(2) any
    by (simp add: rain_to_interval_mm_def sort_values_rain_def Let_def norate del: map_map)
  also have "\<dots> = (if 10 * negative_diffs ?raw < length ?raw then counter_intervals ?raw else ?raw)"
    unfolding nondec_ratio_gt [OF ne] counter_output negative_diffs_def length_diff ..
  finally show ?thesis by (simp add: Let_def)
qed

lemma present_split:
  "length (filter (\<lambda>d. d \<noteq> None) ds)
   = length (filter (\<lambda>d. ge_na d 0) ds) + length (filter (\<lambda>d. lt_na d 0) ds)"
  by (induction ds) (auto simp: ge_na_def lt_na_def split: option.splits)

lemma present_diff_from:
  "list_all (\<lambda>c. c \<noteq> None) xs \<Longrightarrow>
   length (filter (\<lambda>d. d \<noteq> None) (diff_from (Some a) xs)) = length xs"
  by (induction xs arbitrary: a) (auto simp: sub_na_def simp del: not_None_eq)

lemma present_diffs_all:
  "list_all (\<lambda>c. c \<noteq> None) raw \<Longrightarrow> present_diffs raw = length raw - 1"
  by (cases raw) (auto simp: present_diffs_def diff_def sub_na_def present_diff_from simp del: not_None_eq)

lemma criterion_all_present:
  assumes "list_all (\<lambda>c. c \<noteq> None) raw" "raw \<noteq> []"
  shows "(10 * negative_diffs raw < length raw) = spec_at_least_90_percent raw"
proof -
  have "present_diffs raw = nonnegative_diffs raw + negative_diffs raw"
    unfolding present_diffs_def nonnegative_diffs_def negative_diffs_def by (rule present_split)
  moreover have "present_diffs raw = length raw - 1"
    by (rule present_diffs_all [OF assms(1)])
  moreover have "0 < length raw" using assms(2) by simp
  ultimately show ?thesis
    unfolding spec_at_least_90_percent_def by arith
qed

lemma sum_counter_from:
  "sorted (a # vs) \<Longrightarrow>
   \<exists>out. map (fillna 0) (map (\<lambda>d. if ge_na d 0 then d else Some 0) (diff_from (Some a) (map Some vs)))
          = map Some out \<and> sum_list out = last (a # vs) - a"
proof (induction vs arbitrary: a)
  case Nil
  then show ?case by simp
next
  case (Cons v vs)
  then have "sorted (v # vs)" and le: "a \<le> v" by auto
  from Cons.IH [OF this(1)] obtain out where
    o: "map (fillna 0) (map (\<lambda>d. if ge_na d 0 then d else Some 0) (diff_from (Some v) (map Some vs)))
          = map Some out" "sum_list out = last (v # vs) - v" by blast
  have "map (fillna 0) (map (\<lambda>d. if ge_na d 0 then d else Some 0) (diff_from (Some a) (map Some (v # vs))))
        = map Some ((v - a) # out)"
    using o(1) le by (simp add: sub_na_def ge_na_def fillna_def)
  moreover have "sum_list ((v - a) # out) = last (a # v # vs) - a"
    using o(2) by simp
  ultimately show ?case by blast
qed

lemma negative_diffs_sorted:
  "sorted (a # vs) \<Longrightarrow> filter (\<lambda>d. lt_na d 0) (diff_from (Some a) (map Some vs)) = []"
  by (induction vs arbitrary: a) (auto simp: sub_na_def lt_na_def)

text \<open>
  C1, as stated, fails: for the raw column 10, 12, 3, 7 only three of the four rows have a
  difference that is not negative, a share of 0.75 that does not exceed 0.90, so the
  normalizer does not take the column for a counter and the output is not 0, 2, 0, 4.
\<close>

theorem rain_reset_example_passed_through:
  "rain_to_interval_mm (raw_frame [Some 10, Some 12, Some 3, Some 7])
     \<noteq> [Some 0, Some 2, Some 0, Some 4]"
  by code_simp

text \<open>
  C1, amended: the raw column 10, 12, 3, 7 is passed through unchanged. The same
  reset inside a column long enough for the share to exceed 0.90 (eleven rows) is
  clamped: the first interval is zero and the negative difference of the reset becomes zero
  rather than being subtracted.
\<close>

theorem rain_reset_short_and_long_counter:
  "rain_to_interval_mm (raw_frame [Some 10, Some 12, Some 3, Some 7])
     = [Some 10, Some 12, Some 3, Some 7]
   \<and> rain_to_interval_mm
       (raw_frame [Some 10, Some 12, Some 3, Some 7, Some 7, Some 7, Some 7, Some 7, Some 7,
                   Some 7, Some 7])
     = [Some 0, Some 2, Some 0, Some 4, Some 0, Some 0, Some 0, Some 0, Some 0, Some 0, Some 0]"
  by code_simp

text \<open>
  C2, as stated, fails: in the column below the last value is missing, so nine differences
  are non-missing and eight of them are non-negative, less than 90 percent; yet the
  normalizer treats the column as a counter, because it counts the two missing differences
  as non-negative and takes the share over all eleven rows.
\<close>

theorem rain_raw_share_of_present_diffs_fails:
  "\<not> has_rain_rate_mmh
       (raw_frame [Some 10, Some 12, Some 3, Some 7, Some 8, Some 9, Some 10, Some 11, Some 12,
                   Some 13, None])
   \<and> notna_any [Some 10, Some 12, Some 3, Some 7, Some 8, Some 9, Some 10, Some 11, Some 12,
                Some 13, None]
   \<and> \<not> spec_at_least_90_percent
         [Some 10, Some 12, Some 3, Some 7, Some 8, Some 9, Some 10, Some 11, Some 12,
          Some 13, None]
   \<and> rain_to_interval_mm
       (raw_frame [Some 10, Some 12, Some 3, Some 7, Some 8, Some 9, Some 10, Some 11, Some 12,
                   Some 13, None])
     = [Some 0, Some 2, Some 0, Some 4, Some 1, Some 1, Some 1, Some 1, Some 1, Some 1, Some 0]"
  by code_simp

text \<open>
  C2, amended: with no usable rate column and a raw column with some non-missing value, the
  normalizer treats the raw column as a cumulative counter exactly when the rows whose
  successive difference is negative are fewer than a tenth of all rows (that is, when more
  than 90 percent of the rows have a difference that is non-negative or missing, the first
  row included), and otherwise returns the raw values unchanged. When no raw value is
  missing this is the same as at least 90 percent of the successive differences being
  non-negative.
\<close>

theorem rain_raw_counter_criterion:
  assumes "\<not> (has_rain_rate_mmh df \<and> notna_any (map rain_rate_mmh (rain_rows df)))"
    and "has_rain_raw df" and "notna_any (map rain_raw (rain_rows df))"
  shows "rain_to_interval_mm df =
           (let raw = map rain_raw (sort_key Time (rain_rows df))
            in if 10 * negative_diffs raw < length raw then counter_intervals raw else raw)
         \<and> (list_all (\<lambda>c. c \<noteq> None) (map rain_raw (rain_rows df)) \<longrightarrow>
              (10 * negative_diffs (map rain_raw (sort_key Time (rain_rows df)))
                 < length (rain_rows df))
              = spec_at_least_90_percent (map rain_raw (sort_key Time (rain_rows df))))"
proof (intro conjI impI)
  show "rain_to_interval_mm df =
           (let raw = map rain_raw (sort_key Time (rain_rows df))
            in if 10 * negative_diffs raw < length raw then counter_intervals raw else raw)"
    by (rule raw_branch [OF assms])
next
  let ?raw = "map rain_raw (sort_key Time (rain_rows df))"
  assume "list_all (\<lambda>c. c \<noteq> None) (map rain_raw (rain_rows df))"
  then have all: "list_all (\<lambda>c. c \<noteq> None) ?raw"
    by (simp add: list_all_iff del: not_None_eq)
  have ne: "?raw \<noteq> []"
    using assms(3) by (auto simp: notna_any_def list_ex_iff dest: arg_cong [where f = set])
  show "(10 * negative_diffs ?raw < length (rain_rows df)) = spec_at_least_90_percent ?raw"
    using criterion_all_present [OF all ne] by simp
qed

text \<open>
  The criterion at a column of eleven present values with one reset.
\<close>

theorem rain_raw_counter_criterion_witness:
  "rain_to_interval_mm
       (raw_frame [Some 10, Some 12, Some 3, Some 7, Some 8, Some 9, Some 10, Some 11, Some 12,
                   Some 13, Some 14])
     = [Some 0, Some 2, Some 0, Some 4, Some 1, Some 1, Some 1, Some 1, Some 1, Some 1, Some 1]
   \<and> spec_at_least_90_percent
       [Some 10, Some 12, Some 3, Some 7, Some 8, Some 9, Some 10, Some 11, Some 12,
        Some 13, Some 14]"
proof -
  let ?col = "[Some 10, Some 12, Some 3, Some 7, Some 8, Some 9, Some 10, Some 11, Some 12,
               Some 13, Some (14::rat)]"
  let ?df = "raw_frame ?col"
  have h1: "\<not> (has_rain_rate_mmh ?df \<and> notna_any (map rain_rate_mmh (rain_rows ?df)))"
    by code_simp
  have h2: "has_rain_raw ?df" by code_simp
  have h3: "notna_any (map rain_raw (rain_rows ?df))" by code_simp
  have h4: "list_all (\<lambda>c. c \<noteq> None) (map rain_raw (rain_rows ?df))" by code_simp
  have raw: "map rain_raw (sort_key Time (rain_rows ?df)) = ?col" by code_simp
  have len: "length (rain_rows ?df) = 11" by code_simp
  note t = rain_raw_counter_criterion [OF h1 h2 h3]
  have a: "rain_to_interval_mm ?df
           = (if 10 * negative_diffs ?col < length ?col then counter_intervals ?col else ?col)"
    using t [THEN conjunct1] unfolding raw Let_def .
  have b: "(10 * negative_diffs ?col < 11) = spec_at_least_90_percent ?col"
    using t [THEN conjunct2, rule_format, OF h4] unfolding raw len .
  have c: "10 * negative_diffs ?col < 11" by code_simp
  have d: "(if 10 * negative_diffs ?col < length ?col then counter_intervals ?col else ?col)
           = [Some 0, Some 2, Some 0, Some 4, Some 1, Some 1, Some 1, Some 1, Some 1, Some 1, Some 1]"
    by code_simp
  show ?thesis using a b c d by simp
qed

text \<open>
  C5: for a raw counter column with all values present and non-decreasing in time order
  (and no usable rate column), every interval is present and the intervals sum to the last
  value minus the first. Numbers are exact here, so the sum is exact.
\<close>

theorem rain_conservation:
  assumes "\<not> (has_rain_rate_mmh df \<and> notna_any (map rain_rate_mmh (rain_rows df)))"
    and "has_rain_raw df"
    and "map rain_raw (sort_key Time (rain_rows df)) = map Some vs"
    and "vs \<noteq> []" and "sorted vs"
  shows "\<exists>out. rain_to_interval_mm df = map Some out \<and> sum_list out = last vs - hd vs"
proof -
  let ?raw = "map rain_raw (sort_key Time (rain_rows df))"
  obtain v ws where vs: "vs = v # ws" using assms(4) by (cases vs) auto
  have "rain_raw ` set (rain_rows df) = set ?raw" by simp
  also have "\<dots> = Some ` set vs" using assms(3) by simp
  finally have "Some v \<in> rain_raw ` set (rain_rows df)" using vs by simp
  then have any: "notna_any (map rain_raw (rain_rows df))"
    by (auto simp: notna_any_def list_ex_iff intro: bexI sym)
  have d: "diff (map Some vs) = None # diff_from (Some v) (map Some ws)"
    by (simp add: vs diff_def sub_na_def)
  have "filter (\<lambda>d. lt_na d 0) (diff_from (Some v) (map Some ws)) = []"
    using assms(5) unfolding vs by (rule negative_diffs_sorted)
  then have neg: "negative_diffs (map Some vs) = 0"
    unfolding negative_diffs_def d by (simp add: lt_na_def)
  have "rain_to_interval_mm df = counter_intervals (map Some vs)"
    using raw_branch [OF assms(1,2) any] assms(4) by (simp add: assms(3) neg Let_def)
  also have "\<dots> = map (fillna 0) (map (\<lambda>d. if ge_na d 0 then d else Some 0) (diff (map Some vs)))"
    by (rule counter_output [symmetric])
  finally have out: "rain_to_interval_mm df
      = Some 0 # map (fillna 0) (map (\<lambda>d. if ge_na d 0 then d else Some 0)
                   (diff_from (Some v) (map Some ws)))"
    by (simp add: d ge_na_def fillna_def)
  from sum_counter_from [of v ws] assms(5) obtain o1 where
    o1: "map (fillna 0) (map (\<lambda>d. if ge_na d 0 then d else Some 0) (diff_from (Some v) (map Some ws)))
          = map Some o1" "sum_list o1 = last (v # ws) - v"
    unfolding vs by blast
  have "rain_to_interval_mm df = map Some (0 # o1)" using out o1(1) by simp
  moreover have "sum_list (0 # o1) = last vs - hd vs" using o1(2) by (simp add: vs)
  ultimately show ?thesis by blast
qed

text \<open>
  Conservation at the counter 3, 5, 5, 9.
\<close>

theorem rain_conservation_witness:
  "\<exists>out. rain_to_interval_mm (raw_frame [Some 3, Some 5, Some 5, Some 9])
           = map Some out \<and> sum_list out = 9 - 3"
proof -
  let ?df = "raw_frame [Some 3, Some 5, Some 5, Some 9]"
  have h1: "\<not> (has_rain_rate_mmh ?df \<and> notna_any (map rain_rate_mmh (rain_rows ?df)))"
    by code_simp
  have h2: "has_rain_raw ?df" by code_simp
  have h3: "map rain_raw (sort_key Time (rain_rows ?df)) = map Some [3, 5, 5, 9]" by code_simp
  have h4: "[3, 5, 5, 9::rat] \<noteq> []" by simp
  have h5: "sorted [3, 5, 5, 9::rat]" by simp
  show ?thesis using rain_conservation [OF h1 h2 h3 h4 h5] by simp
qed

text \<open>
  C6: when the rate column has some non-missing value, the interval of each row (in time
  order) is its rate times the hours since the previous row, zero hours for the first row,
  and a negative product is raised to zero; a rate of 4 mm/h thirty minutes after the first
  sample gives 2 mm.
\<close>

theorem rain_rate_interval:
  assumes "has_rain_rate_mmh df" and "notna_any (map rain_rate_mmh (rain_rows df))"
  shows "rain_to_interval_mm df =
           map (\<lambda>i. Some (max 0 (rate_or_zero (sort_key Time (rain_rows df) ! i)
                                   * hours_since_previous (sort_key Time (rain_rows df)) i)))
             [0 ..< length (rain_rows df)]
         \<and> rain_to_interval_mm (rate_samples [(t0, Some 0), (t0 + minutes 30, Some 4)])
             = [Some 0, Some 2]"
proof
  show "rain_to_interval_mm df =
           map (\<lambda>i. Some (max 0 (rate_or_zero (sort_key Time (rain_rows df) ! i)
                                   * hours_since_previous (sort_key Time (rain_rows df)) i)))
             [0 ..< length (rain_rows df)]"
    by (rule rate_branch [OF assms])
next
  let ?df = "rate_samples [(t0, Some 0), (t0 + minutes 30, Some 4)]"
  have h1: "has_rain_rate_mmh ?df" by (simp add: rate_samples_def)
  have h2: "notna_any (map rain_rate_mmh (rain_rows ?df))"
    by (simp add: rate_samples_def notna_any_def)
  have s: "sort_key Time (rain_rows ?df) =
      [\<lparr>Time = t0, rain_rate_mmh = Some 0, rain_raw = None\<rparr>,
       \<lparr>Time = t0 + minutes 30, rain_rate_mmh = Some 4, rain_raw = None\<rparr>]"
    by (simp add: rate_samples_def minutes_def)
  have l: "[0 ..< length (rain_rows ?df)] = [0, 1]"
    by (simp add: rate_samples_def upt_rec)
  show "rain_to_interval_mm ?df = [Some 0, Some 2]"
    unfolding rate_branch [OF h1 h2] s l
    by (simp add: rate_or_zero_def hours_since_previous_def minutes_def)
qed

text \<open>
  The rate conversion at four samples, one with a missing and one with a negative rate.
\<close>

theorem rain_rate_interval_witness:
  "rain_to_interval_mm
     (rate_samples [(1704110400000000000, Some 0), (1704110400000000000 + minutes 30, Some 4),
                    (1704110400000000000 + minutes 45, None),
                    (1704110400000000000 + minutes 60, Some (-2))])
   = [Some 0, Some 2, Some 0, Some 0]"
proof -
  let ?df = "rate_samples [(1704110400000000000, Some 0), (1704110400000000000 + minutes 30, Some 4),
                    (1704110400000000000 + minutes 45, None),
                    (1704110400000000000 + minutes 60, Some (-2))]"
  have h1: "has_rain_rate_mmh ?df" by code_simp
  have h2: "notna_any (map rain_rate_mmh (rain_rows ?df))" by code_simp
  have e: "map (\<lambda>i. Some (max 0 (rate_or_zero (sort_key Time (rain_rows ?df) ! i)
                                   * hours_since_previous (sort_key Time (rain_rows ?df)) i)))
             [0 ..< length (rain_rows ?df)] = [Some 0, Some 2, Some 0, Some 0]"
    by code_simp
  show ?thesis
    using rain_rate_interval [OF h1 h2, THEN conjunct1] unfolding e .
qed

subsection \<open>The rate branch on infinite rates\<close>

lemma rate_float_closed:
  assumes "rain_to_interval_mm_rate rows = Some mm"
  shows "mm = map (\<lambda>i. let v = mul_float (fillna_float 0 (snd (sort_key fst rows ! i)))
                               (Finite (hours_since (map fst (sort_key fst rows)) i))
                      in if lt_float v 0 then Finite 0 else v)
               [0 ..< length rows]"
proof -
  let ?rs = "sort_key fst rows"
  have "mm = map (\<lambda>v. if lt_float v 0 then Finite 0 else v)
       (map2 mul_float (map (fillna_float 0) (map snd ?rs))
          (map (\<lambda>c. float_of_cell (fillna 0 c))
             (map (\<lambda>c. div_na (total_seconds c) 3600) (diff (time_cells (map fst ?rs))))))"
    using assms by (simp add: rain_to_interval_mm_rate_def Let_def split: if_splits)
  also have "\<dots> = map (\<lambda>i. let v = mul_float (fillna_float 0 (snd (?rs ! i)))
                               (Finite (hours_since (map fst ?rs) i))
                      in if lt_float v 0 then Finite 0 else v)
               [0 ..< length rows]"
    by (rule nth_equalityI)
       (auto simp: length_diff time_cells_def nth_diff fillna_def div_na_def float_of_cell_def
          total_seconds_def sub_na_def hours_since_def of_int_diff Let_def
          split: option.splits)
  finally show ?thesis .
qed

lemma clamp_mul_float:
  "(let v = mul_float x (Finite dt) in if lt_float v 0 then Finite 0 else v) = NaN
     \<longleftrightarrow> x = NaN \<or> (infinite_float x \<and> dt = 0)"
  "x \<noteq> NaN \<Longrightarrow> \<not> (infinite_float x \<and> dt = 0) \<Longrightarrow>
     nonneg_float (let v = mul_float x (Finite dt) in if lt_float v 0 then Finite 0 else v)"
  by (cases x; auto simp: Let_def lt_float_def infinite_float_def nonneg_float_def not_less)+

lemma insort_key_map_pair:
  "insort_key fst (f x, g x) (map (\<lambda>r. (f r, g r)) ys) = map (\<lambda>r. (f r, g r)) (insort_key f x ys)"
  by (induction ys) auto

lemma sort_key_map_pair:
  "sort_key fst (map (\<lambda>r. (f r, g r)) xs) = map (\<lambda>r. (f r, g r)) (sort_key f xs)"
  by (induction xs) (auto simp: insort_key_map_pair)

text \<open>
  On a frame whose rates are finite or missing, the second model of the rate branch gives
  what \<open>rain_to_interval_mm\<close> gives.
\<close>

lemma rate_branch_agrees:
  assumes "has_rain_rate_mmh df"
  shows "rain_to_interval_mm_rate (map (\<lambda>r. (Time r, float_of_cell (rain_rate_mmh r))) (rain_rows df))
         = (if notna_any (map rain_rate_mmh (rain_rows df))
            then Some (map float_of_cell (rain_to_interval_mm df)) else None)"
proof -
  let ?g = "\<lambda>r. (Time r, float_of_cell (rain_rate_mmh r))"
  let ?rows = "map ?g (rain_rows df)"
  let ?rs = "sort_key Time (rain_rows df)"
  have srt: "sort_key fst ?rows = map ?g ?rs" by (rule sort_key_map_pair)
  have ex: "list_ex (\<lambda>x. x \<noteq> NaN) (map snd (sort_key fst ?rows))
            = notna_any (map rain_rate_mmh (rain_rows df))"
    unfolding srt
    by (auto simp: notna_any_def list_ex_iff float_of_cell_def split: option.splits)
  show ?thesis
  proof (cases "notna_any (map rain_rate_mmh (rain_rows df))")
    case False
    then show ?thesis using ex by (simp add: rain_to_interval_mm_rate_def Let_def)
  next
    case True
    then obtain mm where mm: "rain_to_interval_mm_rate ?rows = Some mm"
      using ex by (simp add: rain_to_interval_mm_rate_def Let_def)
    have "mm = map float_of_cell (rain_to_interval_mm df)"
      unfolding rate_float_closed [OF mm] rate_branch [OF assms True] srt
      by (rule nth_equalityI)
         (auto simp: Let_def float_of_cell_def fillna_float_def rate_or_zero_def lt_float_def
            hours_since_def hours_since_previous_def max_def not_less
            split: option.splits)
    with mm True show ?thesis by simp
  qed
qed

text \<open>
  C10, as stated, fails: a frame whose first row has the rate \<^verbatim>\<open>inf\<close> takes the rate branch,
  and the interval of that row is \<^verbatim>\<open>inf * 0.0\<close>, which is missing and which the clamp at zero
  leaves as it is.
\<close>

theorem rain_rate_infinite_first_row:
  "rain_to_interval_mm_rate [(0, PosInf), (minutes 10, Finite 6)] = Some [NaN, Finite 1]"
  by code_simp

text \<open>
  C10, amended: in the rate branch a missing rate counts as 0 mm/h, so every interval is a
  number that is not negative, and not missing, except that an infinite rate over a time
  delta of zero (the first row, or a row with the timestamp of the row before it) gives a
  missing interval; a row with a missing rate gets 0, never a missing interval.
\<close>

theorem rain_rate_missing_only_infinite:
  assumes "rain_to_interval_mm_rate rows = Some mm"
  shows "length mm = length rows
         \<and> (\<forall>i < length rows.
               (if infinite_float (snd (sort_key fst rows ! i))
                   \<and> hours_since (map fst (sort_key fst rows)) i = 0
                then mm ! i = NaN else nonneg_float (mm ! i))
               \<and> (snd (sort_key fst rows ! i) = NaN \<longrightarrow> mm ! i = Finite 0))"
proof -
  note c = rate_float_closed [OF assms]
  have len: "length mm = length rows" by (subst c) simp
  have "(if infinite_float (snd (sort_key fst rows ! i))
                   \<and> hours_since (map fst (sort_key fst rows)) i = 0
                then mm ! i = NaN else nonneg_float (mm ! i))
               \<and> (snd (sort_key fst rows ! i) = NaN \<longrightarrow> mm ! i = Finite 0)"
    if i: "i < length rows" for i
  proof -
    let ?x = "snd (sort_key fst rows ! i)"
    let ?dt = "hours_since (map fst (sort_key fst rows)) i"
    have m: "mm ! i = (let v = mul_float (fillna_float 0 ?x) (Finite ?dt)
                      in if lt_float v 0 then Finite 0 else v)"
      using i by (subst c) simp
    have f: "fillna_float 0 ?x \<noteq> NaN" "infinite_float (fillna_float 0 ?x) = infinite_float ?x"
      by (auto simp: fillna_float_def infinite_float_def)
    have B: "?x = NaN \<longrightarrow> mm ! i = Finite 0"
      by (simp add: m fillna_float_def lt_float_def)
    have A: "if infinite_float ?x \<and> ?dt = 0 then mm ! i = NaN else nonneg_float (mm ! i)"
    proof (cases "infinite_float ?x \<and> ?dt = 0")
      case True
      then have "mm ! i = NaN"
        unfolding m using clamp_mul_float(1) [of "fillna_float 0 ?x" ?dt] f(2) by blast
      with True show ?thesis by simp
    next
      case False
      then have "\<not> (infinite_float (fillna_float 0 ?x) \<and> ?dt = 0)" using f(2) by simp
      from clamp_mul_float(2) [OF f(1) this] have "nonneg_float (mm ! i)" unfolding m .
      with False show ?thesis by auto
    qed
    from A B show ?thesis by (rule conjI)
  qed
  with len show ?thesis by blast
qed

text \<open>
  A sample with a missing rate, one with a finite rate and one with an infinite rate ten
  minutes after it: the intervals are 0, 1 and infinite.
\<close>

theorem rain_rate_missing_only_infinite_witness:
  "rain_to_interval_mm_rate [(0, NaN), (minutes 10, Finite 6), (minutes 20, PosInf)]
     = Some [Finite 0, Finite 1, PosInf]
   \<and> nonneg_float ([Finite 0, Finite 1, PosInf] ! 2)
   \<and> [Finite 0, Finite 1, PosInf] ! 0 = Finite 0"
proof -
  let ?rows = "[(0, NaN), (minutes 10, Finite 6), (minutes 20, PosInf)]"
  let ?mm = "[Finite 0, Finite 1, PosInf]"
  have e: "rain_to_interval_mm_rate ?rows = Some ?mm" by code_simp
  have i2: "2 < length ?rows" and i0: "0 < length ?rows" by simp_all
  have d2: "\<not> (infinite_float (snd (sort_key fst ?rows ! 2))
               \<and> hours_since (map fst (sort_key fst ?rows)) 2 = 0)"
    by code_simp
  have n0: "snd (sort_key fst ?rows ! 0) = NaN" by code_simp
  from rain_rate_missing_only_infinite [OF e]
  have t: "\<forall>i < length ?rows.
               (if infinite_float (snd (sort_key fst ?rows ! i))
                   \<and> hours_since (map fst (sort_key fst ?rows)) i = 0
                then ?mm ! i = NaN else nonneg_float (?mm ! i))
               \<and> (snd (sort_key fst ?rows ! i) = NaN \<longrightarrow> ?mm ! i = Finite 0)"
    by (rule conjunct2)
  from t i2 d2 have a: "nonneg_float (?mm ! 2)" by (metis (no_types, lifting))
  from t i0 n0 have b: "?mm ! 0 = Finite 0" by blast
  show ?thesis using e a b by (intro conjI)
qed

section \<open>Properties of the timestamp column search\<close>

lemma str_in_iff: "str_in kw s = (\<exists>p q. s = p @ kw @ q)"
proof (induction s)
  case Nil
  then show ?case by auto
next
  case (Cons c cs)
  have "(\<exists>p q. c # cs = p @ kw @ q) = (take (length kw) (c # cs) = kw \<or> (\<exists>p q. cs = p @ kw @ q))"
  proof
    assume "\<exists>p q. c # cs = p @ kw @ q"
    then obtain p q where e: "c # cs = p @ kw @ q" by blast
    show "take (length kw) (c # cs) = kw \<or> (\<exists>p q. cs = p @ kw @ q)"
    proof (cases p)
      case Nil
      then show ?thesis using e by simp
    next
      case (Cons a p')
      then have "cs = p' @ kw @ q" using e by simp
      then show ?thesis by blast
    qed
  next
    assume "take (length kw) (c # cs) = kw \<or> (\<exists>p q. cs = p @ kw @ q)"
    then show "\<exists>p q. c # cs = p @ kw @ q"
    proof
      assume "take (length kw) (c # cs) = kw"
      then have "c # cs = [] @ kw @ drop (length kw) (c # cs)"
        by (metis append_Nil append_take_drop_id)
      then show ?thesis by blast
    next
      assume "\<exists>p q. cs = p @ kw @ q"
      then obtain p q where "cs = p @ kw @ q" by blast
      then have "c # cs = (c # p) @ kw @ q" by simp
      then show ?thesis by blast
    qed
  qed
  with Cons show ?case by simp
qed

lemma find_col_None: "(find_col cols kws = None) = (\<not> list_ex (\<lambda>c. list_ex (\<lambda>kw. str_in kw (lower c)) kws) cols)"
  by (induction cols) auto

lemma find_col_Some: "find_col cols kws = Some c \<Longrightarrow> list_ex (\<lambda>kw. str_in kw (lower c)) kws"
  by (induction cols) (auto split: if_splits)

lemma contains_keyword_fun: "contains_keyword kw = (\<lambda>c. str_in kw (lower c))"
  by (simp add: fun_eq_iff contains_keyword_def)

lemma truthy_find_col:
  assumes "kw \<noteq> []"
  shows "truthy (find_col cols [kw]) = has_keyword kw cols"
proof (cases "find_col cols [kw]")
  case None
  then show ?thesis
    using find_col_None [of cols "[kw]"] by (simp add: truthy_def has_keyword_def contains_keyword_fun)
next
  case (Some c)
  then have "str_in kw (lower c)" using find_col_Some [of cols "[kw]" c] by simp
  then have "c \<noteq> []" using assms by (auto simp: lower_def)
  moreover have "has_keyword kw cols"
    using Some find_col_None [of cols "[kw]"] by (simp add: has_keyword_def contains_keyword_fun)
  ultimately show ?thesis using Some by (simp add: truthy_def)
qed

lemma find_col_first: "find_col cols [kw] = first_with_keyword kw cols"
  by (induction cols) (auto simp: first_with_keyword_def contains_keyword_fun)

text \<open>
  C8, as stated, fails: a file whose time column is named \<^verbatim>\<open>time\<close> in lower case, with no
  date column, matches the first pattern of the claim, and the classifier raises.
\<close>

theorem time_column_lowercase_not_found:
  "spec_time_pattern [''time'', ''Temperature'']
   \<and> parse_station_csv_Time [''time'', ''Temperature''] = Inl ValueError"
  by code_simp

text \<open>
  C8, amended: the first pattern is a column named \<^verbatim>\<open>Time\<close> in exactly this letter case. The
  classifier succeeds whenever the headers have such a column, and with no column named
  \<^verbatim>\<open>date\<close> beside it the timestamps are parsed from that column alone. It succeeds whenever
  the headers have separate date and time columns; with no column named \<^verbatim>\<open>Time\<close>, the
  timestamps are parsed from the first column with \<^verbatim>\<open>date\<close> in its name and the first column
  with \<^verbatim>\<open>time\<close> in its name together, when these are two columns. It fails only with the
  \<^verbatim>\<open>ValueError\<close> that reports the missing time column and only when neither pattern is found;
  and it does fail when neither is found, unless a single column name contains both words.
\<close>

theorem time_column_located:
  "(''Time'' \<in> set columns \<longrightarrow> (\<exists>src. parse_station_csv_Time columns = Inr src))
   \<and> (''Time'' \<in> set columns \<and> \<not> list_ex (\<lambda>c. lower c = ''date'') columns
        \<longrightarrow> parse_station_csv_Time columns = Inr (TimeColumn ''Time''))
   \<and> (spec_date_and_time_pattern columns
        \<longrightarrow> (\<exists>src. parse_station_csv_Time columns = Inr src))
   \<and> (''Time'' \<notin> set columns \<and> first_with_keyword ''date'' columns = Some d
        \<and> first_with_keyword ''time'' columns = Some t \<and> d \<noteq> t
        \<longrightarrow> parse_station_csv_Time columns = Inr (DateAndTimeColumns d t))
   \<and> (parse_station_csv_Time columns = Inl e
        \<longrightarrow> e = ValueError \<and> ''Time'' \<notin> set columns \<and> \<not> spec_date_and_time_pattern columns)
   \<and> (''Time'' \<notin> set columns \<and> \<not> spec_date_and_time_pattern columns
        \<and> \<not> date_and_time_in_one columns
        \<longrightarrow> parse_station_csv_Time columns = Inl ValueError)"
proof -
  have kw: "has_keyword ''date'' columns \<and> has_keyword ''time'' columns"
    if "spec_date_and_time_pattern columns"
    using that unfolding spec_date_and_time_pattern_def has_keyword_def list_ex_iff by blast
  have both: "spec_date_and_time_pattern columns \<or> date_and_time_in_one columns"
    if "has_keyword ''date'' columns" and "has_keyword ''time'' columns"
  proof -
    from that obtain d t where dt: "d \<in> set columns" "contains_keyword ''date'' d"
      "t \<in> set columns" "contains_keyword ''time'' t"
      unfolding has_keyword_def list_ex_iff by blast
    show ?thesis
    proof (cases "d = t")
      case True
      with dt show ?thesis unfolding date_and_time_in_one_def list_ex_iff by blast
    next
      case False
      with dt show ?thesis unfolding spec_date_and_time_pattern_def list_ex_iff by blast
    qed
  qed
  have c1: "''Time'' \<in> set columns \<longrightarrow> (\<exists>src. parse_station_csv_Time columns = Inr src)"
    by (simp add: parse_station_csv_Time_def)
  have c2: "''Time'' \<in> set columns \<and> \<not> list_ex (\<lambda>c. lower c = ''date'') columns
        \<longrightarrow> parse_station_csv_Time columns = Inr (TimeColumn ''Time'')"
    by (simp add: parse_station_csv_Time_def)
  have c3: "spec_date_and_time_pattern columns
        \<longrightarrow> (\<exists>src. parse_station_csv_Time columns = Inr src)"
    using kw by (auto simp: parse_station_csv_Time_def Let_def truthy_find_col)
  have c4: "''Time'' \<notin> set columns \<and> first_with_keyword ''date'' columns = Some d
        \<and> first_with_keyword ''time'' columns = Some t \<and> d \<noteq> t
        \<longrightarrow> parse_station_csv_Time columns = Inr (DateAndTimeColumns d t)"
  proof
    assume a: "''Time'' \<notin> set columns \<and> first_with_keyword ''date'' columns = Some d
        \<and> first_with_keyword ''time'' columns = Some t \<and> d \<noteq> t"
    then have fd: "find_col columns [''date''] = Some d"
      and ft: "find_col columns [''time''] = Some t"
      by (simp_all add: find_col_first)
    have "str_in ''date'' (lower d)" "str_in ''time'' (lower t)"
      using find_col_Some [OF fd] find_col_Some [OF ft] by simp_all
    then have "d \<noteq> []" "t \<noteq> []" by (auto simp: lower_def)
    then show "parse_station_csv_Time columns = Inr (DateAndTimeColumns d t)"
      using a fd ft by (simp add: parse_station_csv_Time_def Let_def truthy_def)
  qed
  have c5: "parse_station_csv_Time columns = Inl e
        \<longrightarrow> e = ValueError \<and> ''Time'' \<notin> set columns \<and> \<not> spec_date_and_time_pattern columns"
    using kw by (auto simp: parse_station_csv_Time_def Let_def truthy_find_col split: if_splits)
  have c6: "''Time'' \<notin> set columns \<and> \<not> spec_date_and_time_pattern columns
        \<and> \<not> date_and_time_in_one columns
        \<longrightarrow> parse_station_csv_Time columns = Inl ValueError"
    using both by (auto simp: parse_station_csv_Time_def Let_def truthy_find_col)
  show ?thesis
    by (rule conjI [OF c1 conjI [OF c2 conjI [OF c3 conjI [OF c4 conjI [OF c5 c6]]]]])
qed

text \<open>
  Three files: one with a column \<^verbatim>\<open>Time\<close>, one with the columns \<^verbatim>\<open>date\<close> and \<^verbatim>\<open>time\<close> in
  lower case, and one with neither.
\<close>

theorem time_column_located_witness:
  "parse_station_csv_Time [''Time'', ''Temperature''] = Inr (TimeColumn ''Time'')
   \<and> parse_station_csv_Time [''date'', ''time'', ''Temperature'']
       = Inr (DateAndTimeColumns ''date'' ''time'')
   \<and> parse_station_csv_Time [''Temperature'', ''Humidity''] = Inl ValueError"
proof -
  have a1: "''Time'' \<in> set [''Time'', ''Temperature'']
            \<and> \<not> list_ex (\<lambda>c. lower c = ''date'') [''Time'', ''Temperature'']"
    by code_simp
  have a2: "''Time'' \<notin> set [''date'', ''time'', ''Temperature'']
            \<and> first_with_keyword ''date'' [''date'', ''time'', ''Temperature''] = Some ''date''
            \<and> first_with_keyword ''time'' [''date'', ''time'', ''Temperature''] = Some ''time''
            \<and> ''date'' \<noteq> ''time''"
    by code_simp
  have a3: "''Time'' \<notin> set [''Temperature'', ''Humidity'']
            \<and> \<not> spec_date_and_time_pattern [''Temperature'', ''Humidity'']
            \<and> \<not> date_and_time_in_one [''Temperature'', ''Humidity'']"
    by code_simp
  have 1: "parse_station_csv_Time [''Time'', ''Temperature''] = Inr (TimeColumn ''Time'')"
    using time_column_located [of "[''Time'', ''Temperature'']", THEN conjunct2, THEN conjunct1] a1
    by (rule mp)
  have 2: "parse_station_csv_Time [''date'', ''time'', ''Temperature'']
       = Inr (DateAndTimeColumns ''date'' ''time'')"
    using time_column_located [of "[''date'', ''time'', ''Temperature'']" "''date''" "''time''",
        THEN conjunct2, THEN conjunct2, THEN conjunct2, THEN conjunct1] a2
    by (rule mp)
  have 3: "parse_station_csv_Time [''Temperature'', ''Humidity''] = Inl ValueError"
    using time_column_located [of "[''Temperature'', ''Humidity'']",
        THEN conjunct2, THEN conjunct2, THEN conjunct2, THEN conjunct2, THEN conjunct2] a3
    by (rule mp)
  show ?thesis using 1 2 3 by simp
qed

section \<open>Properties of the master store\<close>

lemma set_drop_duplicates_last: "set (drop_duplicates_last f xs) \<subseteq> set xs"
  by (induction xs) auto

lemma keys_drop_duplicates_last: "f ` set (drop_duplicates_last f xs) = f ` set xs"
proof (induction xs)
  case Nil
  show ?case by simp
next
  case (Cons x xs)
  show ?case
  proof (cases "list_ex (\<lambda>y. f y = f x) xs")
    case True
    then have "f x \<in> f ` set xs" by (auto simp: list_ex_iff intro: rev_image_eqI)
    with True Cons show ?thesis by (simp add: insert_absorb)
  next
    case False
    with Cons show ?thesis by simp
  qed
qed

lemma distinct_drop_duplicates_last: "distinct (map f (drop_duplicates_last f xs))"
proof (induction xs)
  case Nil
  show ?case by simp
next
  case (Cons x xs)
  have "\<not> list_ex (\<lambda>y. f y = f x) xs \<Longrightarrow> f x \<notin> f ` set (drop_duplicates_last f xs)"
    unfolding keys_drop_duplicates_last by (auto simp: list_ex_iff)
  with Cons show ?case by simp
qed

lemma sorted_drop_duplicates_last:
  "sorted (map f xs) \<Longrightarrow> sorted (map f (drop_duplicates_last f xs))"
proof (induction xs)
  case Nil
  show ?case by simp
next
  case (Cons x xs)
  then have s: "sorted (map f (drop_duplicates_last f xs))" and le: "\<forall>y \<in> set xs. f x \<le> f y"
    by auto
  have "\<forall>y \<in> set (drop_duplicates_last f xs). f x \<le> f y"
    using le set_drop_duplicates_last [of f xs] by blast
  with s show ?case by simp
qed

lemma filter_drop_duplicates_last:
  "filter (\<lambda>y. f y = k) (drop_duplicates_last f xs)
   = (if filter (\<lambda>y. f y = k) xs = [] then [] else [last (filter (\<lambda>y. f y = k) xs)])"
proof (induction xs)
  case Nil
  show ?case by simp
next
  case (Cons x xs)
  show ?case
  proof (cases "list_ex (\<lambda>y. f y = f x) xs")
    case True
    then have "f x = k \<Longrightarrow> filter (\<lambda>y. f y = k) xs \<noteq> []"
      by (auto simp: list_ex_iff filter_empty_conv)
    with True Cons show ?thesis by auto
  next
    case False
    then have "f x = k \<Longrightarrow> filter (\<lambda>y. f y = k) xs = []"
      by (auto simp: list_ex_iff filter_empty_conv)
    with False Cons show ?thesis by auto
  qed
qed

lemma length_drop_duplicates_last: "length (drop_duplicates_last f xs) = card (f ` set xs)"
proof -
  have "length (drop_duplicates_last f xs) = length (map f (drop_duplicates_last f xs))" by simp
  also have "\<dots> = card (set (map f (drop_duplicates_last f xs)))"
    by (rule distinct_card [symmetric]) (rule distinct_drop_duplicates_last)
  also have "\<dots> = card (f ` set xs)" by (simp add: keys_drop_duplicates_last)
  finally show ?thesis .
qed

lemma Time_ffill_from: "map Time (ffill_from prev rs) = map Time rs"
  by (induction rs arbitrary: prev) (auto split: option.splits)

text \<open>
  Whatever the order of equal timestamps after the sort, the saved archive is sorted by time
  and has no timestamp twice, and the two counts are the length of the batch and the rows
  before plus the batch rows minus the rows after.
\<close>

lemma merge_into_master_sorted_unique:
  assumes "merge_into_master master merged = (archive, imported_rows, dedup_removed)"
  shows "sorted (map Time archive) \<and> distinct (map Time archive)
         \<and> imported_rows = int (length merged)
         \<and> dedup_removed = (int (length master) + int (length merged)) - int (length archive)"
proof -
  let ?d = "drop_duplicates_last Time (sort_values Time (master @ merged))"
  let ?f = "ffill_windheading (sort_key Time ?d)"
  have arch: "archive = sort_key Time ?f"
    using assms by (simp add: merge_into_master_def Let_def)
  have 1: "sorted (map Time archive)" by (simp add: arch)
  have "distinct (map Time (sort_key Time ?d))"
    using distinct_drop_duplicates_last [of Time "sort_values Time (master @ merged)"]
    by (metis distinct_map distinct_sort set_sort)
  then have "distinct (map Time ?f)"
    by (simp add: ffill_windheading_def Time_ffill_from)
  then have 2: "distinct (map Time archive)"
    unfolding arch by (metis distinct_map distinct_sort set_sort)
  have "length ?f = length ?d"
    using Time_ffill_from [of None "sort_key Time ?d"]
    by (metis ffill_windheading_def length_map length_sort)
  then have len: "length archive = length ?d" by (simp add: arch)
  have 3: "imported_rows = int (length merged)"
    using assms by (simp add: merge_into_master_def Let_def)
  have "dedup_removed = (int (length master) + int (length merged)) - int (length ?d)"
    using assms by (simp add: merge_into_master_def Let_def)
  then have 4: "dedup_removed = (int (length master) + int (length merged)) - int (length archive)"
    by (simp add: len)
  show ?thesis using 1 2 3 4 by blast
qed

text \<open>
  What keeping the last row of each timestamp gives after a sort that leaves rows with equal
  timestamps in their input order (\<^verbatim>\<open>kind="stable"\<close>): for every timestamp of the batch, the
  last row of the batch with that timestamp.
\<close>

lemma stable_sort_keeps_batch:
  assumes "b \<in> set merged"
  shows "filter (\<lambda>x. Time x = Time b) (drop_duplicates_last Time (sort_key Time (master @ merged)))
         = [last (filter (\<lambda>x. Time x = Time b) merged)]"
proof -
  have "filter (\<lambda>x. Time x = Time b) merged \<noteq> []"
    using assms by (auto simp: filter_empty_conv)
  then show ?thesis
    by (simp add: filter_drop_duplicates_last sort_key_stable)
qed

text \<open>
  With an archive of 16 readings the sort is an insertion sort and the reading of the batch
  replaces the reading of the archive at the same minute.
\<close>

lemma master_merge_short_archive:
  "filter (\<lambda>x. Time x = minutes 3)
     (fst (merge_into_master (minute_log 16) [reading_at (minutes 3) (Some 99) None]))
   = [reading_at (minutes 3) (Some 99) None]"
  by code_simp

text \<open>
  C3: merging a batch into the archive is meant to keep, for a timestamp that the archive and
  the batch share, the reading of the batch: the batch is appended after the archive and
  \<^verbatim>\<open>keep="last"\<close> keeps the last row of each timestamp. The sort between the two steps does not
  keep the rows of one timestamp in that order. With an archive of 17 readings, at the minutes
  0 to 16, and a batch of one reading at minute 3 with the temperature 99, the merge returns
  the archive as it was, with the temperature 3 at minute 3: the reading of the batch is the
  one that is dropped, and it is counted as the duplicate removed. The same happens when the
  batch comes from an intake file and the archive from the disk.
\<close>

theorem master_merge_keeps_archive_reading:
  "merge_into_master (minute_log 17) [reading_at (minutes 3) (Some 99) None]
     = (minute_log 17, 1, 1)
   \<and> filter (\<lambda>x. Time x = minutes 3) (minute_log 17) = [reading_at (minutes 3) (Some 3) None]
   \<and> \<not> isl (ingest_import_folder
              (archive_disk (minute_log 17) [met_file ''a.csv'' [met_sample (minutes 3) 99]]))
   \<and> PARQUET_FILE (fst (projr (ingest_import_folder
              (archive_disk (minute_log 17) [met_file ''a.csv'' [met_sample (minutes 3) 99]]))))
     = Some (minute_log 17)
   \<and> snd (projr (ingest_import_folder
              (archive_disk (minute_log 17) [met_file ''a.csv'' [met_sample (minutes 3) 99]])))
     = (1, 1)"
  by code_simp

section \<open>Properties of the intake\<close>

lemma parse_all_parts:
  "parse_all fs = Inr (met_parts, rain_parts) \<Longrightarrow>
   met_parts = List.map_filter met_of fs \<and> rain_parts = List.map_filter rain_of fs"
proof (induction fs arbitrary: met_parts rain_parts)
  case Nil
  then show ?case by simp
next
  case (Cons f fs)
  from Cons.prems obtain p where p: "parsed f = Inr p"
    by (cases "parsed f") auto
  from Cons.prems p obtain ms rs where rest: "parse_all fs = Inr (ms, rs)"
    by (cases "parse_all fs") auto
  from Cons.IH [OF rest] have ih: "ms = List.map_filter met_of fs" "rs = List.map_filter rain_of fs"
    by auto
  show ?case
  proof (cases p)
    case (Met df)
    with p have "met_of f = Some df" "rain_of f = None"
      by (simp_all add: met_of_def rain_of_def)
    with Cons.prems p rest ih Met show ?thesis by auto
  next
    case (Rain df)
    with p have "met_of f = None" "rain_of f = Some df"
      by (simp_all add: met_of_def rain_of_def)
    with Cons.prems p rest ih Rain show ?thesis by auto
  qed
qed

lemma map_filter_split:
  "List.map_filter h (a @ x # b) =
     List.map_filter h a @ (case h x of None \<Rightarrow> [] | Some y \<Rightarrow> [y]) @ List.map_filter h b"
  by (induction a) (auto split: option.splits)

lemma set_drop_duplicates_first: "set (drop_duplicates_first f xs) \<subseteq> set xs"
  by (induction f xs rule: drop_duplicates_first.induct) auto

lemma find_filter_other:
  "k \<noteq> c \<Longrightarrow> find (\<lambda>x. f x = k) (filter (\<lambda>y. f y \<noteq> c) xs) = find (\<lambda>x. f x = k) xs"
  by (induction xs) auto

lemma filter_drop_duplicates_first:
  "filter (\<lambda>x. f x = k) (drop_duplicates_first f xs)
   = (case find (\<lambda>x. f x = k) xs of None \<Rightarrow> [] | Some x \<Rightarrow> [x])"
proof (induction f xs rule: drop_duplicates_first.induct)
  case (1 f)
  show ?case by simp
next
  case (2 f x xs)
  show ?case
  proof (cases "f x = k")
    case True
    have "\<forall>y \<in> set (drop_duplicates_first f (filter (\<lambda>y. f y \<noteq> f x) xs)). f y \<noteq> k"
      using set_drop_duplicates_first [of f "filter (\<lambda>y. f y \<noteq> f x) xs"] True by auto
    then have "filter (\<lambda>x. f x = k) (drop_duplicates_first f (filter (\<lambda>y. f y \<noteq> f x) xs)) = []"
      by (simp add: filter_empty_conv)
    with True show ?thesis by simp
  next
    case False
    then have "k \<noteq> f x" by auto
    from find_filter_other [OF this, of f xs] 2 False show ?thesis by simp
  qed
qed

lemma find_append_cases:
  "find P (xs @ ys) = (case find P xs of None \<Rightarrow> find P ys | Some x \<Rightarrow> Some x)"
  by (induction xs) auto

lemma find_concat_first:
  assumes "\<forall>p \<in> set ps. \<forall>x \<in> set (g p). \<not> P x" and "find P (g p) = Some r"
  shows "find P (concat (map g (ps @ p # qs))) = Some r"
proof -
  have "find P (concat (map g ps)) = None"
    using assms(1) by (auto simp: find_None_iff)
  then show ?thesis
    using assms(2) by (simp add: find_append_cases)
qed

lemma Time_met_part_rows: "Time ` set (met_part_rows d) = Time ` set (met_rows d)"
proof -
  have "map Time (met_part_rows d) = map Time (met_rows d)"
    by (simp add: met_part_rows_def)
  then show ?thesis by (metis set_map)
qed

lemma Time_rain_part_rows: "Time ` set (rain_part_rows d) = Time ` set (rain_rows d)"
proof -
  have "map Time (rain_part_rows d) = map Time (rain_rows d)"
    by (simp add: rain_part_rows_def)
  then show ?thesis by (metis set_map)
qed

lemma met_frame_first_wins:
  assumes "met_parts = ps @ df # qs"
    and "\<forall>d \<in> set ps. t \<notin> Time ` set (met_rows d)"
    and "find (\<lambda>x. Time x = t) (met_part_rows df) = Some r"
  shows "filter (\<lambda>x. Time x = t) (met_rows (met_frame met_parts)) = [r]"
proof -
  have "\<forall>p \<in> set ps. \<forall>x \<in> set (met_part_rows p). \<not> Time x = t"
    using assms(2) Time_met_part_rows by blast
  then have f: "find (\<lambda>x. Time x = t) (concat (map met_part_rows (ps @ df # qs))) = Some r"
    using assms(3) by (rule find_concat_first)
  have "met_rows (met_frame met_parts)
        = sort_key Time (drop_duplicates_first Time (concat (map met_part_rows met_parts)))"
    using assms(1) by (simp add: met_frame_def concat_met_def Let_def)
  then show ?thesis
    by (simp add: sort_key_stable filter_drop_duplicates_first assms(1) f del: map_append)
qed

lemma rain_frame_first_wins:
  assumes "rain_parts = ps @ df # qs"
    and "\<forall>d \<in> set ps. t \<notin> Time ` set (rain_rows d)"
    and "find (\<lambda>x. Time x = t) (rain_part_rows df) = Some r"
  shows "filter (\<lambda>x. Time x = t) (rain_rows (rain_frame rain_parts)) = [r]"
proof -
  have "\<forall>p \<in> set ps. \<forall>x \<in> set (rain_part_rows p). \<not> Time x = t"
    using assms(2) Time_rain_part_rows by blast
  then have f: "find (\<lambda>x. Time x = t) (concat (map rain_part_rows (ps @ df # qs))) = Some r"
    using assms(3) by (rule find_concat_first)
  have "rain_rows (rain_frame rain_parts)
        = sort_key Time (drop_duplicates_first Time (concat (map rain_part_rows rain_parts)))"
    by (simp add: rain_frame_def concat_rain_def Let_def)
  then show ?thesis
    by (simp add: sort_key_stable filter_drop_duplicates_first assms(1) f del: map_append)
qed

text \<open>
  The order in which \<^verbatim>\<open>ingest_import_folder\<close> reads the files: however the directory lists
  them, a listing of the same files with strictly ascending names is the order of the run.
\<close>

lemma name_order_sort:
  assumes "distinct (map file_name dir)"
    and "set files = set dir"
    and "sorted_wrt (\<lambda>a b. file_name a < file_name b) files"
  shows "sort_key file_name dir = files"
proof -
  have s: "sorted_wrt (<) (map file_name files)"
    using assms(3) by (simp add: sorted_wrt_map)
  then have 1: "sorted (map file_name files)" "distinct (map file_name files)"
    by (simp_all add: strict_sorted_iff)
  have 2: "sorted (map file_name (sort_key file_name dir))" by simp
  have 3: "distinct (map file_name (sort_key file_name dir))"
    using assms(1) by (metis distinct_map distinct_sort set_sort inj_on_def)
  have "set (map file_name files) = set (map file_name (sort_key file_name dir))"
    using assms(2) by simp
  then have m: "map file_name files = map file_name (sort_key file_name dir)"
    using 1 2 3 by (intro sorted_distinct_set_unique)
  have "inj_on file_name (set dir)" using assms(1) by (simp add: distinct_map)
  then have "inj_on file_name (set files \<union> set (sort_key file_name dir))"
    using assms(2) by simp
  then show ?thesis using m by (simp add: inj_on_map_eq_map)
qed

text \<open>
  C9: let \<open>files\<close> be the files of the intake directory in the order of their names, whatever
  the order in which the directory lists them, and let them all parse. Then
  \<^verbatim>\<open>ingest_import_folder\<close> is the rest of the pipeline run on the meteorological frame and the
  rain frame built from the parts of the files in this order, each frame deduplicated by the
  exact timestamp keeping the first occurrence. So when \<open>f\<close> is the first file of its kind, in
  name order, that has a row with timestamp \<open>t\<close>, the one row with timestamp \<open>t\<close> in the frame
  of that kind is the first such row of \<open>f\<close>; the rows with timestamp \<open>t\<close> of later files are
  discarded. This holds for the meteorological frame and for the rain frame, whose intervals
  are what the pipeline goes on with.
\<close>

theorem intake_first_file_wins:
  assumes "distinct (map file_name (IMPORT_DIR s))"
    and "set files = set (IMPORT_DIR s)"
    and "sorted_wrt (\<lambda>a b. file_name a < file_name b) files"
    and "files = fs1 @ f # fs2"
    and "parse_all files = Inr (met_parts, rain_parts)"
  shows "ingest_import_folder s
           = ingest_frames s files (met_frame met_parts) (rain2_frame rain_parts)
       \<and> met_parts = List.map_filter met_of files
       \<and> rain_parts = List.map_filter rain_of files
       \<and> (\<forall>df r. met_of f = Some df
            \<and> (\<forall>g \<in> set fs1. \<forall>d. met_of g = Some d \<longrightarrow> t \<notin> Time ` set (met_rows d))
            \<and> find (\<lambda>x. Time x = t) (met_part_rows df) = Some r
          \<longrightarrow> filter (\<lambda>x. Time x = t) (met_rows (met_frame met_parts)) = [r])
       \<and> (\<forall>df r. rain_of f = Some df
            \<and> (\<forall>g \<in> set fs1. \<forall>d. rain_of g = Some d \<longrightarrow> t \<notin> Time ` set (rain_rows d))
            \<and> find (\<lambda>x. Time x = t) (rain_part_rows df) = Some r
          \<longrightarrow> filter (\<lambda>x. Time x = t) (rain_rows (rain_frame rain_parts)) = [r]
              \<and> rain2_frame rain_parts
                  = zip (map Time (rain_rows (rain_frame rain_parts)))
                      (rain_to_interval_mm (rain_frame rain_parts)))"
proof -
  have "sort_key file_name (IMPORT_DIR s) = files"
    using assms(1,2,3) by (rule name_order_sort)
  then have c1: "ingest_import_folder s
           = ingest_frames s files (met_frame met_parts) (rain2_frame rain_parts)"
    using assms(4,5) by (simp add: ingest_import_folder_def)
  have c2: "met_parts = List.map_filter met_of files"
    using parse_all_parts [OF assms(5)] by simp
  have c3: "rain_parts = List.map_filter rain_of files"
    using parse_all_parts [OF assms(5)] by simp
  have c4: "\<forall>df r. met_of f = Some df
            \<and> (\<forall>g \<in> set fs1. \<forall>d. met_of g = Some d \<longrightarrow> t \<notin> Time ` set (met_rows d))
            \<and> find (\<lambda>x. Time x = t) (met_part_rows df) = Some r
          \<longrightarrow> filter (\<lambda>x. Time x = t) (met_rows (met_frame met_parts)) = [r]"
  proof (intro allI impI)
    fix df r
    assume a: "met_of f = Some df
              \<and> (\<forall>g \<in> set fs1. \<forall>d. met_of g = Some d \<longrightarrow> t \<notin> Time ` set (met_rows d))
              \<and> find (\<lambda>x. Time x = t) (met_part_rows df) = Some r"
    have "met_parts = List.map_filter met_of fs1 @ df # List.map_filter met_of fs2"
      using a by (simp add: c2 assms(4) map_filter_split)
    moreover have "\<forall>d \<in> set (List.map_filter met_of fs1). t \<notin> Time ` set (met_rows d)"
      using a by (auto simp: List.map_filter_def)
    ultimately show "filter (\<lambda>x. Time x = t) (met_rows (met_frame met_parts)) = [r]"
      using a by (intro met_frame_first_wins) auto
  qed
  have c5: "\<forall>df r. rain_of f = Some df
            \<and> (\<forall>g \<in> set fs1. \<forall>d. rain_of g = Some d \<longrightarrow> t \<notin> Time ` set (rain_rows d))
            \<and> find (\<lambda>x. Time x = t) (rain_part_rows df) = Some r
          \<longrightarrow> filter (\<lambda>x. Time x = t) (rain_rows (rain_frame rain_parts)) = [r]
              \<and> rain2_frame rain_parts
                  = zip (map Time (rain_rows (rain_frame rain_parts)))
                      (rain_to_interval_mm (rain_frame rain_parts))"
  proof (intro allI impI)
    fix df r
    assume a: "rain_of f = Some df
              \<and> (\<forall>g \<in> set fs1. \<forall>d. rain_of g = Some d \<longrightarrow> t \<notin> Time ` set (rain_rows d))
              \<and> find (\<lambda>x. Time x = t) (rain_part_rows df) = Some r"
    have parts: "rain_parts = List.map_filter rain_of fs1 @ df # List.map_filter rain_of fs2"
      using a by (simp add: c3 assms(4) map_filter_split)
    moreover have "\<forall>d \<in> set (List.map_filter rain_of fs1). t \<notin> Time ` set (rain_rows d)"
      using a by (auto simp: List.map_filter_def)
    ultimately have 1: "filter (\<lambda>x. Time x = t) (rain_rows (rain_frame rain_parts)) = [r]"
      using a by (intro rain_frame_first_wins) auto
    have "rain_parts \<noteq> []" using parts by simp
    then have 2: "rain2_frame rain_parts
                    = zip (map Time (rain_rows (rain_frame rain_parts)))
                        (rain_to_interval_mm (rain_frame rain_parts))"
      by (simp add: rain2_frame_def Let_def)
    show "filter (\<lambda>x. Time x = t) (rain_rows (rain_frame rain_parts)) = [r]
                \<and> rain2_frame rain_parts
                    = zip (map Time (rain_rows (rain_frame rain_parts)))
                        (rain_to_interval_mm (rain_frame rain_parts))"
      using 1 2 by (rule conjI)
  qed
  show ?thesis
    by (rule conjI [OF c1 conjI [OF c2 conjI [OF c3 conjI [OF c4 c5]]]])
qed

text \<open>
  Four intake files, listed out of order, and an empty archive: the meteorological files
  \<^verbatim>\<open>a.csv\<close> and \<^verbatim>\<open>b.csv\<close> and the rain files \<^verbatim>\<open>c.csv\<close> and \<^verbatim>\<open>d.csv\<close> all have a row at
  minute 5. The rows of \<^verbatim>\<open>a.csv\<close> and of \<^verbatim>\<open>c.csv\<close> are kept, and the archive the run saves has
  the temperature 1 of \<^verbatim>\<open>a.csv\<close> at minute 5 and, at minute 6, the 2 mm between the counter
  values 7 and 9 of \<^verbatim>\<open>c.csv\<close>.
\<close>

theorem intake_first_file_wins_witness:
  "filter (\<lambda>x. Time x = minutes 5)
     (met_rows (met_frame
        [\<lparr>has_temperature_c = True, has_humidity_rh = False,
          has_windspeed_kmh = False, has_windheading = False,
          met_rows = [met_sample (minutes 4) 0, met_sample (minutes 5) 1]\<rparr>,
         \<lparr>has_temperature_c = True, has_humidity_rh = False,
          has_windspeed_kmh = False, has_windheading = False,
          met_rows = [met_sample (minutes 5) 2]\<rparr>]))
   = [met_sample (minutes 5) 1]
   \<and> filter (\<lambda>x. Time x = minutes 5)
     (rain_rows (rain_frame
        [\<lparr>has_rain_rate_mmh = False, has_rain_raw = True,
          rain_rows = [\<lparr>Time = minutes 5, rain_rate_mmh = None, rain_raw = Some 7\<rparr>,
                       \<lparr>Time = minutes 6, rain_rate_mmh = None, rain_raw = Some 9\<rparr>]\<rparr>,
         \<lparr>has_rain_rate_mmh = False, has_rain_raw = True,
          rain_rows = [\<lparr>Time = minutes 5, rain_rate_mmh = None, rain_raw = Some 8\<rparr>]\<rparr>]))
   = [\<lparr>Time = minutes 5, rain_rate_mmh = None, rain_raw = Some 7\<rparr>]
   \<and> PARQUET_FILE (fst (projr (ingest_import_folder (archive_disk []
        [rain_file ''d.csv'' [(minutes 5, Some 8)],
         met_file ''b.csv'' [met_sample (minutes 5) 2],
         rain_file ''c.csv'' [(minutes 5, Some 7), (minutes 6, Some 9)],
         met_file ''a.csv'' [met_sample (minutes 4) 0, met_sample (minutes 5) 1]]))))
     = PARQUET_FILE (fst (projr (ingest_frames (archive_disk []
        [rain_file ''d.csv'' [(minutes 5, Some 8)],
         met_file ''b.csv'' [met_sample (minutes 5) 2],
         rain_file ''c.csv'' [(minutes 5, Some 7), (minutes 6, Some 9)],
         met_file ''a.csv'' [met_sample (minutes 4) 0, met_sample (minutes 5) 1]])
        [met_file ''a.csv'' [met_sample (minutes 4) 0, met_sample (minutes 5) 1],
         met_file ''b.csv'' [met_sample (minutes 5) 2],
         rain_file ''c.csv'' [(minutes 5, Some 7), (minutes 6, Some 9)],
         rain_file ''d.csv'' [(minutes 5, Some 8)]]
        (met_frame
          [\<lparr>has_temperature_c = True, has_humidity_rh = False,
            has_windspeed_kmh = False, has_windheading = False,
            met_rows = [met_sample (minutes 4) 0, met_sample (minutes 5) 1]\<rparr>,
           \<lparr>has_temperature_c = True, has_humidity_rh = False,
            has_windspeed_kmh = False, has_windheading = False,
            met_rows = [met_sample (minutes 5) 2]\<rparr>])
        (rain2_frame
          [\<lparr>has_rain_rate_mmh = False, has_rain_raw = True,
            rain_rows = [\<lparr>Time = minutes 5, rain_rate_mmh = None, rain_raw = Some 7\<rparr>,
                         \<lparr>Time = minutes 6, rain_rate_mmh = None, rain_raw = Some 9\<rparr>]\<rparr>,
           \<lparr>has_rain_rate_mmh = False, has_rain_raw = True,
            rain_rows = [\<lparr>Time = minutes 5, rain_rate_mmh = None, rain_raw = Some 8\<rparr>]\<rparr>]))))
   \<and> PARQUET_FILE (fst (projr (ingest_import_folder (archive_disk []
        [rain_file ''d.csv'' [(minutes 5, Some 8)],
         met_file ''b.csv'' [met_sample (minutes 5) 2],
         rain_file ''c.csv'' [(minutes 5, Some 7), (minutes 6, Some 9)],
         met_file ''a.csv'' [met_sample (minutes 4) 0, met_sample (minutes 5) 1]]))))
     = Some [\<lparr>Time = minutes 4, temperature_c = Some 0, humidity_rh = None,
               windspeed_kmh = None, windheading = None, rain_mm = None\<rparr>,
             \<lparr>Time = minutes 5, temperature_c = Some 1, humidity_rh = None,
               windspeed_kmh = None, windheading = None, rain_mm = Some 0\<rparr>,
             \<lparr>Time = minutes 6, temperature_c = None, humidity_rh = None,
               windspeed_kmh = None, windheading = None, rain_mm = Some 2\<rparr>]"
proof -
  let ?a = "met_file ''a.csv'' [met_sample (minutes 4) 0, met_sample (minutes 5) 1]"
  let ?b = "met_file ''b.csv'' [met_sample (minutes 5) 2]"
  let ?c = "rain_file ''c.csv'' [(minutes 5, Some 7), (minutes 6, Some 9)]"
  let ?d = "rain_file ''d.csv'' [(minutes 5, Some 8)]"
  let ?s = "archive_disk [] [?d, ?b, ?c, ?a]"
  let ?dfa = "\<lparr>has_temperature_c = True, has_humidity_rh = False,
                has_windspeed_kmh = False, has_windheading = False,
                met_rows = [met_sample (minutes 4) 0, met_sample (minutes 5) 1]\<rparr>"
  let ?dfb = "\<lparr>has_temperature_c = True, has_humidity_rh = False,
                has_windspeed_kmh = False, has_windheading = False,
                met_rows = [met_sample (minutes 5) 2]\<rparr>"
  let ?dfc = "\<lparr>has_rain_rate_mmh = False, has_rain_raw = True,
                rain_rows = [\<lparr>Time = minutes 5, rain_rate_mmh = None, rain_raw = Some 7\<rparr>,
                             \<lparr>Time = minutes 6, rain_rate_mmh = None, rain_raw = Some 9\<rparr>]\<rparr>"
  let ?dfd = "\<lparr>has_rain_rate_mmh = False, has_rain_raw = True,
                rain_rows = [\<lparr>Time = minutes 5, rain_rate_mmh = None, rain_raw = Some 8\<rparr>]\<rparr>"
  have h1: "distinct (map file_name (IMPORT_DIR ?s))"
    by (simp add: archive_disk_def met_file_def rain_file_def)
  have h2: "set [?a, ?b, ?c, ?d] = set (IMPORT_DIR ?s)"
    by (auto simp: archive_disk_def)
  have h3: "sorted_wrt (\<lambda>a b. file_name a < file_name b) [?a, ?b, ?c, ?d]"
    by (simp add: met_file_def rain_file_def)
  have s1: "[?a, ?b, ?c, ?d] = [] @ ?a # [?b, ?c, ?d]" by simp
  have s2: "[?a, ?b, ?c, ?d] = [?a, ?b] @ ?c # [?d]" by simp
  have p: "parse_all [?a, ?b, ?c, ?d] = Inr ([?dfa, ?dfb], [?dfc, ?dfd])"
    by code_simp
  have m1: "met_of ?a = Some ?dfa" by code_simp
  have m2: "find (\<lambda>x. Time x = minutes 5) (met_part_rows ?dfa) = Some (met_sample (minutes 5) 1)"
    by code_simp
  have r1: "rain_of ?c = Some ?dfc" by code_simp
  have r2: "\<forall>g \<in> set [?a, ?b]. \<forall>d. rain_of g = Some d \<longrightarrow> minutes 5 \<notin> Time ` set (rain_rows d)"
    by (simp add: rain_of_def met_file_def)
  have r3: "find (\<lambda>x. Time x = minutes 5) (rain_part_rows ?dfc)
            = Some \<lparr>Time = minutes 5, rain_rate_mmh = None, rain_raw = Some 7\<rparr>"
    by code_simp
  note t1 = intake_first_file_wins [OF h1 h2 h3 s1 p, of "minutes 5"]
  note t2 = intake_first_file_wins [OF h1 h2 h3 s2 p, of "minutes 5"]
  have A: "filter (\<lambda>x. Time x = minutes 5) (met_rows (met_frame [?dfa, ?dfb]))
           = [met_sample (minutes 5) 1]"
    using t1 [THEN conjunct2, THEN conjunct2, THEN conjunct2, THEN conjunct1] m1 m2 by simp
  have B: "filter (\<lambda>x. Time x = minutes 5) (rain_rows (rain_frame [?dfc, ?dfd]))
           = [\<lparr>Time = minutes 5, rain_rate_mmh = None, rain_raw = Some 7\<rparr>]"
    using t2 [THEN conjunct2, THEN conjunct2, THEN conjunct2, THEN conjunct2] r1 r2 r3 by blast
  have C: "ingest_import_folder ?s
           = ingest_frames ?s [?a, ?b, ?c, ?d] (met_frame [?dfa, ?dfb]) (rain2_frame [?dfc, ?dfd])"
    using t1 by (rule conjunct1)
  have D: "PARQUET_FILE (fst (projr (ingest_import_folder ?s)))
     = Some [\<lparr>Time = minutes 4, temperature_c = Some 0, humidity_rh = None,
               windspeed_kmh = None, windheading = None, rain_mm = None\<rparr>,
             \<lparr>Time = minutes 5, temperature_c = Some 1, humidity_rh = None,
               windspeed_kmh = None, windheading = None, rain_mm = Some 0\<rparr>,
             \<lparr>Time = minutes 6, temperature_c = None, humidity_rh = None,
               windspeed_kmh = None, windheading = None, rain_mm = Some 2\<rparr>]"
    by code_simp
  show ?thesis using A B D by (simp only: C simp_thms)
qed

section \<open>Properties of the whole run\<close>

lemma fold_write_month_DATA_DIR:
  "DATA_DIR (fold (write_month f) gs s)
   = DATA_DIR s ++ map_of (rev (map (\<lambda>mg. (fst mg @ ''.json'', month_out f (sort_key Time (snd mg)))) gs))"
proof (induction gs arbitrary: s)
  case Nil
  show ?case by simp
next
  case (Cons g gs)
  let ?h = "\<lambda>mg. (fst mg @ ''.json'', month_out f (sort_key Time (snd mg)))"
  have "DATA_DIR (fold (write_month f) (g # gs) s)
        = DATA_DIR (write_month f g s) ++ map_of (rev (map ?h gs))"
    by (simp add: Cons.IH)
  also have "DATA_DIR (write_month f g s) = DATA_DIR s ++ map_of [?h g]"
    by (simp add: write_month_def)
  also have "(DATA_DIR s ++ map_of [?h g]) ++ map_of (rev (map ?h gs))
             = DATA_DIR s ++ map_of (rev (map ?h (g # gs)))"
    by (simp add: fun_eq_iff map_add_def split: option.splits)
  finally show ?case .
qed

lemma fold_write_month_other:
  "PARQUET_FILE (fold (write_month f) gs s) = PARQUET_FILE s
   \<and> MANIFEST_FILE (fold (write_month f) gs s) = MANIFEST_FILE s
   \<and> IMPORT_DIR (fold (write_month f) gs s) = IMPORT_DIR s
   \<and> SNOW_PARQUET_FILE (fold (write_month f) gs s) = SNOW_PARQUET_FILE s
   \<and> SNOW_CSV_FILE (fold (write_month f) gs s) = SNOW_CSV_FILE s"
  by (induction gs arbitrary: s) (simp_all add: write_month_def)

lemma generate_monthly_json_effect:
  "PARQUET_FILE (fst (generate_monthly_json f s)) = PARQUET_FILE s
   \<and> MANIFEST_FILE (fst (generate_monthly_json f s)) = MANIFEST_FILE s
   \<and> IMPORT_DIR (fst (generate_monthly_json f s)) = IMPORT_DIR s
   \<and> DATA_DIR (fst (generate_monthly_json f s))
       = DATA_DIR s ++ map_of (rev (extract_writes f (load_master s)))
   \<and> snd (generate_monthly_json f s) = manifest_months f (load_master s)"
  by (simp add: generate_monthly_json_def Let_def fold_write_month_other
      fold_write_month_DATA_DIR extract_writes_def manifest_months_def)

lemma snow_step_effect:
  "PARQUET_FILE (case ingest_snow_file s of Inl e \<Rightarrow> s | Inr (x, n) \<Rightarrow> x) = PARQUET_FILE s
   \<and> MANIFEST_FILE (case ingest_snow_file s of Inl e \<Rightarrow> s | Inr (x, n) \<Rightarrow> x) = MANIFEST_FILE s
   \<and> IMPORT_DIR (case ingest_snow_file s of Inl e \<Rightarrow> s | Inr (x, n) \<Rightarrow> x) = IMPORT_DIR s
   \<and> DATA_DIR (case ingest_snow_file s of Inl e \<Rightarrow> s | Inr (x, n) \<Rightarrow> x) = DATA_DIR s"
  by (auto simp: ingest_snow_file_def Let_def split: option.splits sum.splits)

lemma map_add_twice: "(d ++ m) ++ m = d ++ m"
  by (simp add: fun_eq_iff map_add_def split: option.splits)

lemma after_ingest:
  assumes "ingest_import_folder s0 = Inr (s1, a, b)"
  shows "\<exists>s'. main f s0 = Inr s'
           \<and> IMPORT_DIR s' = IMPORT_DIR s1
           \<and> PARQUET_FILE s' = PARQUET_FILE s1
           \<and> DATA_DIR s' = DATA_DIR s1 ++ map_of (rev (extract_writes f (load_master s1)))
           \<and> MANIFEST_FILE s' = Some (manifest_months f (load_master s1), ''snow.json'')"
proof -
  let ?s2 = "case ingest_snow_file s1 of Inl e \<Rightarrow> s1 | Inr (x, n) \<Rightarrow> x"
  let ?g = "generate_monthly_json f ?s2"
  have lm: "load_master ?s2 = load_master s1"
    using snow_step_effect [of s1] by (simp add: load_master_def)
  have m: "main f s0 = Inr (write_index_html (write_manifest (snd ?g) (generate_snow_json f (fst ?g))))"
    using assms by (cases "ingest_snow_file s1") (auto simp: main_def Let_def split_beta)
  show ?thesis
    unfolding m
    using generate_monthly_json_effect [of f ?s2] snow_step_effect [of s1]
    by (simp add: write_index_html_def write_manifest_def generate_snow_json_def Let_def lm)
qed

lemma ingest_empty: "IMPORT_DIR s = [] \<Longrightarrow> ingest_import_folder s = Inr (s, 0, 0)"
  by (simp add: ingest_import_folder_def)

lemma ingest_leaves:
  assumes "ingest_import_folder s0 = Inr (s1, a, b)"
  shows "IMPORT_DIR s1 = [] \<and> DATA_DIR s1 = DATA_DIR s0"
proof (cases "IMPORT_DIR s0 = []")
  case True
  with assms show ?thesis by (simp add: ingest_empty)
next
  case False
  then have "sort_key file_name (IMPORT_DIR s0) \<noteq> []"
    by (metis length_0_conv length_sort)
  with assms show ?thesis
    by (auto simp: ingest_import_folder_def ingest_frames_def Let_def split: sum.splits prod.splits)
qed

text \<open>
  C4: a run with an empty intake directory always completes and leaves the persisted
  archive as it was, whatever the archive and the snow ledger are; and when the disk is the
  one a previous run left, every monthly extract and the manifest are left as they were too.
  Files are compared by their content, and the extracts by the whole directory.
\<close>

theorem pipeline_rerun_unchanged:
  assumes "IMPORT_DIR s = []"
  shows "\<exists>s'. main strftime s = Inr s'
           \<and> PARQUET_FILE s' = PARQUET_FILE s
           \<and> (\<forall>s0. main strftime s0 = Inr s \<longrightarrow>
                 DATA_DIR s' = DATA_DIR s \<and> MANIFEST_FILE s' = MANIFEST_FILE s)"
proof -
  from after_ingest [OF ingest_empty [OF assms], of strftime] obtain s' where
    s': "main strftime s = Inr s'" "PARQUET_FILE s' = PARQUET_FILE s"
        "DATA_DIR s' = DATA_DIR s ++ map_of (rev (extract_writes strftime (load_master s)))"
        "MANIFEST_FILE s' = Some (manifest_months strftime (load_master s), ''snow.json'')"
    by blast
  have "DATA_DIR s' = DATA_DIR s \<and> MANIFEST_FILE s' = MANIFEST_FILE s"
    if prev: "main strftime s0 = Inr s" for s0
  proof -
    obtain s1 a b where i: "ingest_import_folder s0 = Inr (s1, a, b)"
      using prev by (cases "ingest_import_folder s0") (auto simp: main_def)
    from after_ingest [OF i, of strftime] prev
    have p: "PARQUET_FILE s = PARQUET_FILE s1"
      "DATA_DIR s = DATA_DIR s1 ++ map_of (rev (extract_writes strftime (load_master s1)))"
      "MANIFEST_FILE s = Some (manifest_months strftime (load_master s1), ''snow.json'')"
      by auto
    have lm: "load_master s = load_master s1"
      using p(1) by (simp add: load_master_def)
    show ?thesis
      unfolding s'(3,4) lm p(2,3) by (simp add: map_add_twice)
  qed
  with s'(1,2) show ?thesis by blast
qed

lemma main_leaves_intake_empty:
  assumes "main f s0 = Inr s"
  shows "IMPORT_DIR s = []"
proof -
  obtain s1 a b where i: "ingest_import_folder s0 = Inr (s1, a, b)"
    using assms by (cases "ingest_import_folder s0") (auto simp: main_def)
  from after_ingest [OF i, of f] assms ingest_leaves [OF i] show ?thesis by auto
qed

text \<open>
  A first run ingests one file with readings in two months; the run after it finds the intake
  directory empty and changes neither the archive nor the extracts nor the manifest.
\<close>

theorem pipeline_rerun_unchanged_witness:
  "\<exists>s s'. main strftime_1970 first_run_disk = Inr s
          \<and> MANIFEST_FILE s = Some ([(''1970-02'', ''1970-02.json''), (''1970-01'', ''1970-01.json'')], ''snow.json'')
          \<and> main strftime_1970 s = Inr s'
          \<and> PARQUET_FILE s' = PARQUET_FILE s
          \<and> DATA_DIR s' = DATA_DIR s \<and> MANIFEST_FILE s' = MANIFEST_FILE s"
proof -
  have "\<not> isl (ingest_import_folder first_run_disk)" by code_simp
  then obtain s1 a b where i: "ingest_import_folder first_run_disk = Inr (s1, a, b)"
    by (cases "ingest_import_folder first_run_disk") auto
  from after_ingest [OF i, of strftime_1970] obtain s where
    s: "main strftime_1970 first_run_disk = Inr s" by blast
  have m: "MANIFEST_FILE (projr (main strftime_1970 first_run_disk))
           = Some ([(''1970-02'', ''1970-02.json''), (''1970-01'', ''1970-01.json'')], ''snow.json'')"
    by code_simp
  have e: "IMPORT_DIR s = []" using s by (rule main_leaves_intake_empty)
  from pipeline_rerun_unchanged [OF e, of strftime_1970] s m show ?thesis
    by auto
qed

section \<open>Properties of the minute alignment\<close>

lemma floor_min_mono: "t \<le> u \<Longrightarrow> floor_min t \<le> floor_min u"
proof -
  assume le: "t \<le> u"
  have "floor_min t = 60000000000 * (t div 60000000000)"
    by (simp add: floor_min_def minus_mod_eq_mult_div)
  moreover have "floor_min u = 60000000000 * (u div 60000000000)"
    by (simp add: floor_min_def minus_mod_eq_mult_div)
  moreover have "t div 60000000000 \<le> u div 60000000000"
    using le by (rule zdiv_mono1) simp
  ultimately show ?thesis by simp
qed

lemma idxmax_from_Some:
  assumes "idxmax_from (Some b) rs = Some m" and "windspeed_kmh b = Some wb"
  shows "\<exists>w. windspeed_kmh m = Some w \<and> wb \<le> w \<and> m \<in> insert b (set rs)
             \<and> (\<forall>r \<in> set rs. \<forall>v. windspeed_kmh r = Some v \<longrightarrow> v \<le> w)"
  using assms
proof (induction rs arbitrary: b wb)
  case Nil
  then show ?case by simp
next
  case (Cons r rs)
  show ?case
  proof (cases "windspeed_kmh r")
    case None
    with Cons.prems have "idxmax_from (Some b) rs = Some m" by simp
    from Cons.IH [OF this Cons.prems(2)] None show ?thesis by auto
  next
    case (Some v)
    show ?thesis
    proof (cases "wb < v")
      case True
      with Some Cons.prems have "idxmax_from (Some r) rs = Some m" by (simp add: gt_na_def)
      from Cons.IH [OF this Some] obtain w where
        w: "windspeed_kmh m = Some w" "v \<le> w" "m \<in> insert r (set rs)"
           "\<forall>x \<in> set rs. \<forall>u. windspeed_kmh x = Some u \<longrightarrow> u \<le> w"
        by blast
      have "wb \<le> w" using True w(2) by simp
      moreover have "\<forall>x \<in> set (r # rs). \<forall>u. windspeed_kmh x = Some u \<longrightarrow> u \<le> w"
        using w(2,4) Some by auto
      moreover have "m \<in> insert b (set (r # rs))" using w(3) by auto
      ultimately show ?thesis using w(1) by blast
    next
      case False
      with Some Cons.prems have "idxmax_from (Some b) rs = Some m" by (simp add: gt_na_def)
      from Cons.IH [OF this Cons.prems(2)] obtain w where
        w: "windspeed_kmh m = Some w" "wb \<le> w" "m \<in> insert b (set rs)"
           "\<forall>x \<in> set rs. \<forall>u. windspeed_kmh x = Some u \<longrightarrow> u \<le> w"
        by blast
      have "\<forall>x \<in> set (r # rs). \<forall>u. windspeed_kmh x = Some u \<longrightarrow> u \<le> w"
        using w(2,4) Some False by auto
      moreover have "m \<in> insert b (set (r # rs))" using w(3) by auto
      ultimately show ?thesis using w(1,2) by blast
    qed
  qed
qed

lemma idxmax_from_start:
  assumes "idxmax_from None rs = Some m"
  shows "\<exists>w. windspeed_kmh m = Some w \<and> m \<in> set rs
             \<and> (\<forall>r \<in> set rs. \<forall>v. windspeed_kmh r = Some v \<longrightarrow> v \<le> w)"
  using assms
proof (induction rs)
  case Nil
  then show ?case by simp
next
  case (Cons r rs)
  show ?case
  proof (cases "windspeed_kmh r")
    case None
    with Cons.prems have "idxmax_from None rs = Some m" by simp
    from Cons.IH [OF this] None show ?thesis by auto
  next
    case (Some v)
    with Cons.prems have "idxmax_from (Some r) rs = Some m" by simp
    from idxmax_from_Some [OF this Some] obtain w where
      w: "windspeed_kmh m = Some w" "v \<le> w" "m \<in> insert r (set rs)"
         "\<forall>x \<in> set rs. \<forall>u. windspeed_kmh x = Some u \<longrightarrow> u \<le> w"
      by blast
    have "\<forall>x \<in> set (r # rs). \<forall>u. windspeed_kmh x = Some u \<longrightarrow> u \<le> w"
      using w(2,4) Some by auto
    then show ?thesis using w(1,3) by auto
  qed
qed

lemma idxmax_is_max: "idxmax rs = Some m \<Longrightarrow> is_max_wind_row rs m"
  using idxmax_from_start [of rs m] by (auto simp: idxmax_def is_max_wind_row_def)

lemma idxmax_from_None:
  "idxmax_from best rs = None \<Longrightarrow> best = None \<and> (\<forall>r \<in> set rs. windspeed_kmh r = None)"
proof (induction rs arbitrary: best)
  case Nil
  then show ?case by simp
next
  case (Cons r rs)
  show ?case
  proof (cases "windspeed_kmh r")
    case None
    with Cons.prems have "idxmax_from best rs = None" by simp
    from Cons.IH [OF this] None show ?thesis by simp
  next
    case (Some v)
    with Cons.prems have "idxmax_from (case best of None \<Rightarrow> Some r
             | Some b \<Rightarrow> if gt_na (Some v) (the (windspeed_kmh b)) then Some r else best) rs = None"
      by simp
    from Cons.IH [OF this] show ?thesis by (cases best) (simp_all split: if_splits)
  qed
qed

lemma idxmax_None: "(idxmax rs = None) = (\<forall>r \<in> set rs. windspeed_kmh r = None)"
proof
  assume "idxmax rs = None"
  then show "\<forall>r \<in> set rs. windspeed_kmh r = None"
    unfolding idxmax_def by (auto dest: idxmax_from_None)
next
  assume a: "\<forall>r \<in> set rs. windspeed_kmh r = None"
  have "idxmax_from None rs = None" using a by (induction rs) auto
  then show "idxmax rs = None" by (simp add: idxmax_def)
qed

lemma keyed_sorted:
  assumes "sorted (map Time (met_rows met))"
  shows "sort_key (\<lambda>(k, r). Time r) (sort_key fst (keyed_rows met)) = keyed_rows met"
proof -
  have "sorted_wrt (\<lambda>x y. Time x \<le> Time y) (met_rows met)"
    using assms by (simp add: sorted_map)
  then have "sorted_wrt (\<lambda>x y. floor_min (Time x) \<le> floor_min (Time y)) (met_rows met)"
    by (rule sorted_wrt_mono_rel [rotated]) (simp add: floor_min_mono)
  then have "sorted (map fst (keyed_rows met))"
    by (simp add: keyed_rows_def sorted_map comp_def)
  then have 1: "sort_key fst (keyed_rows met) = keyed_rows met"
    by (rule sort_key_id_if_sorted)
  have "map (\<lambda>(k, r). Time r) (keyed_rows met) = map Time (met_rows met)"
    by (simp add: keyed_rows_def comp_def)
  then have "sorted (map (\<lambda>(k, r). Time r) (keyed_rows met))"
    using assms by simp
  then have 2: "sort_key (\<lambda>(k, r). Time r) (keyed_rows met) = keyed_rows met"
    by (rule sort_key_id_if_sorted)
  show ?thesis by (simp only: 1 2)
qed

lemma group_rows: "map snd (filter (\<lambda>(k, r). k = g) (keyed_rows met)) = minute_rows met g"
  by (simp add: keyed_rows_def minute_rows_def filter_map comp_def)

lemma align_met_sorted:
  assumes "sorted (map Time (met_rows met))" and "met_rows met \<noteq> []"
  shows "align_met met =
     (if has_windspeed_kmh met \<and> notna_any (map windspeed_kmh (met_rows met)) then
        (if list_ex (\<lambda>g. idxmax (minute_rows met g) = None) (minute_keys met)
         then Inl IdxmaxError
         else if \<not> has_windheading met then Inl KeyError
         else Inr (map (\<lambda>(k, r).
                     (case map_of (map (\<lambda>g. (g, wind_of_minute met g)) (minute_keys met)) k of
                        None \<Rightarrow> (k, r\<lparr>windspeed_kmh := None, windheading := None\<rparr>)
                      | Some (w, h) \<Rightarrow> (k, r\<lparr>windspeed_kmh := w, windheading := h\<rparr>)))
                 (drop_duplicates_last fst (keyed_rows met))))
      else Inr (drop_duplicates_last fst (keyed_rows met)))"
proof -
  have k: "sort_key (\<lambda>(k, r). Time r)
             (sort_key fst (map (\<lambda>r. (floor_min (Time r), r)) (met_rows met))) = keyed_rows met"
    using keyed_sorted [OF assms(1)] by (simp add: keyed_rows_def)
  have w: "map (\<lambda>(k, r). windspeed_kmh r) (keyed_rows met) = map windspeed_kmh (met_rows met)"
    by (simp add: keyed_rows_def comp_def)
  have g: "sort (remdups (map fst (keyed_rows met))) = minute_keys met"
    by (simp add: keyed_rows_def minute_keys_def comp_def)
  have i: "map (\<lambda>g. (g, idxmax (map snd (filter (\<lambda>(k, r). k = g) (keyed_rows met)))))
             (minute_keys met)
           = map (\<lambda>g. (g, idxmax (minute_rows met g))) (minute_keys met)"
    by (simp add: group_rows)
  have e: "list_ex (\<lambda>(g, i). i = None) (map (\<lambda>g. (g, idxmax (minute_rows met g))) (minute_keys met))
           = list_ex (\<lambda>g. idxmax (minute_rows met g) = None) (minute_keys met)"
    by (simp add: list_ex_iff)
  have m: "map (\<lambda>(g, i). (g, windspeed_kmh (the i), windheading (the i)))
             (map (\<lambda>g. (g, idxmax (minute_rows met g))) (minute_keys met))
           = map (\<lambda>g. (g, wind_of_minute met g)) (minute_keys met)"
    by (simp add: wind_of_minute_def)
  show ?thesis
    unfolding align_met_def Let_def k w g i e m using assms(2) by simp
qed

lemma map_of_keys: "map_of (map (\<lambda>g. (g, f g)) gs) k = (if k \<in> set gs then Some (f k) else None)"
  by (induction gs) auto

lemma last_minute_row:
  assumes "r0 \<in> set (met_rows met)"
  shows "filter (\<lambda>p. fst p = floor_min (Time r0)) (drop_duplicates_last fst (keyed_rows met))
         = [(floor_min (Time r0), last (minute_rows met (floor_min (Time r0))))]"
proof -
  let ?k = "floor_min (Time r0)"
  have f: "filter (\<lambda>p. fst p = ?k) (keyed_rows met)
           = map (\<lambda>r. (floor_min (Time r), r)) (minute_rows met ?k)"
    by (simp add: keyed_rows_def minute_rows_def filter_map comp_def)
  have ne: "minute_rows met ?k \<noteq> []"
    using assms by (auto simp: minute_rows_def filter_empty_conv)
  then have "last (minute_rows met ?k) \<in> set (minute_rows met ?k)" by simp
  then have k: "floor_min (Time (last (minute_rows met ?k))) = ?k"
    by (simp add: minute_rows_def)
  have "last (filter (\<lambda>p. fst p = ?k) (keyed_rows met)) = (?k, last (minute_rows met ?k))"
    unfolding f using ne k by (simp add: last_map)
  moreover have "filter (\<lambda>p. fst p = ?k) (keyed_rows met) \<noteq> []"
    unfolding f using ne by simp
  ultimately show ?thesis
    by (simp add: filter_drop_duplicates_last)
qed

text \<open>
  The alignment where it succeeds: for a frame sorted by time that has a wind speed and a
  heading column and a wind speed in every minute, the aligned frame has one record for the
  minute of each row; the record takes the wind speed and the heading from the first row of
  the minute with the largest wind speed and every other field from the last row of the
  minute.
\<close>

lemma minute_alignment:
  assumes "sorted (map Time (met_rows met))"
    and "has_windspeed_kmh met" and "has_windheading met"
    and "\<forall>r \<in> set (met_rows met).
           list_ex (\<lambda>x. windspeed_kmh x \<noteq> None) (minute_rows met (floor_min (Time r)))"
    and "r0 \<in> set (met_rows met)"
  shows "\<exists>out m. align_met met = Inr out
           \<and> idxmax (minute_rows met (floor_min (Time r0))) = Some m
           \<and> is_max_wind_row (minute_rows met (floor_min (Time r0))) m
           \<and> filter (\<lambda>p. fst p = floor_min (Time r0)) out
               = [(floor_min (Time r0),
                   (last (minute_rows met (floor_min (Time r0))))
                     \<lparr>windspeed_kmh := windspeed_kmh m, windheading := windheading m\<rparr>)]"
proof -
  let ?k = "floor_min (Time r0)"
  let ?W = "map (\<lambda>g. (g, wind_of_minute met g)) (minute_keys met)"
  let ?G = "\<lambda>(k, r). (case map_of ?W k of
                        None \<Rightarrow> (k, r\<lparr>windspeed_kmh := None, windheading := None\<rparr>)
                      | Some (w, h) \<Rightarrow> (k, r\<lparr>windspeed_kmh := w, windheading := h\<rparr>))"
  have ne: "met_rows met \<noteq> []" using assms(5) by auto
  have keys: "set (minute_keys met) = (\<lambda>r. floor_min (Time r)) ` set (met_rows met)"
    by (simp add: minute_keys_def)
  have some: "idxmax (minute_rows met g) \<noteq> None" if "g \<in> set (minute_keys met)" for g
    using that assms(4) unfolding keys idxmax_None by (auto simp: list_ex_iff)
  then have noerr: "\<not> list_ex (\<lambda>g. idxmax (minute_rows met g) = None) (minute_keys met)"
    by (auto simp: list_ex_iff)
  have any: "notna_any (map windspeed_kmh (met_rows met))"
    using assms(4,5) by (simp add: notna_any_def list_ex_iff minute_rows_def) blast
  have out: "align_met met = Inr (map ?G (drop_duplicates_last fst (keyed_rows met)))"
    unfolding align_met_sorted [OF assms(1) ne] using assms(2,3) any noerr by simp
  have kin: "?k \<in> set (minute_keys met)" using assms(5) unfolding keys by blast
  from some [OF kin] obtain m where m: "idxmax (minute_rows met ?k) = Some m" by auto
  have fstG: "fst (?G p) = fst p" for p
    by (cases p) (auto split: option.splits)
  have "filter (\<lambda>p. fst p = ?k) (map ?G (drop_duplicates_last fst (keyed_rows met)))
        = map ?G (filter (\<lambda>p. fst p = ?k) (drop_duplicates_last fst (keyed_rows met)))"
    by (simp add: filter_map comp_def fstG)
  also have "\<dots> = [?G (?k, last (minute_rows met ?k))]"
    by (simp only: last_minute_row [OF assms(5)] list.map)
  also have "?G (?k, last (minute_rows met ?k))
             = (?k, (last (minute_rows met ?k))
                     \<lparr>windspeed_kmh := windspeed_kmh m, windheading := windheading m\<rparr>)"
    using kin m by (simp add: map_of_keys wind_of_minute_def)
  finally have "filter (\<lambda>p. fst p = ?k) (map ?G (drop_duplicates_last fst (keyed_rows met)))
     = [(?k, (last (minute_rows met ?k))
                     \<lparr>windspeed_kmh := windspeed_kmh m, windheading := windheading m\<rparr>)]" .
  with out m idxmax_is_max [OF m] show ?thesis by blast
qed

text \<open>
  When the alignment raises: in the wind branch, if some minute has no wind speed, or else if
  the frame has no heading column.
\<close>

lemma align_met_fails_iff:
  assumes "sorted (map Time (met_rows met))" and "met_rows met \<noteq> []"
  shows "(align_met met = Inl IdxmaxError)
         = (has_windspeed_kmh met \<and> notna_any (map windspeed_kmh (met_rows met))
            \<and> (\<exists>r \<in> set (met_rows met).
                  \<forall>x \<in> set (minute_rows met (floor_min (Time r))). windspeed_kmh x = None))"
    and "(align_met met = Inl KeyError)
         = (has_windspeed_kmh met \<and> notna_any (map windspeed_kmh (met_rows met))
            \<and> \<not> has_windheading met
            \<and> \<not> (\<exists>r \<in> set (met_rows met).
                     \<forall>x \<in> set (minute_rows met (floor_min (Time r))). windspeed_kmh x = None))"
proof -
  have e: "list_ex (\<lambda>g. idxmax (minute_rows met g) = None) (minute_keys met)
        = (\<exists>r \<in> set (met_rows met).
             \<forall>x \<in> set (minute_rows met (floor_min (Time r))). windspeed_kmh x = None)"
    by (auto simp: list_ex_iff idxmax_None minute_keys_def)
  show "(align_met met = Inl IdxmaxError)
         = (has_windspeed_kmh met \<and> notna_any (map windspeed_kmh (met_rows met))
            \<and> (\<exists>r \<in> set (met_rows met).
                  \<forall>x \<in> set (minute_rows met (floor_min (Time r))). windspeed_kmh x = None))"
    unfolding align_met_sorted [OF assms] e [symmetric] by auto
  show "(align_met met = Inl KeyError)
         = (has_windspeed_kmh met \<and> notna_any (map windspeed_kmh (met_rows met))
            \<and> \<not> has_windheading met
            \<and> \<not> (\<exists>r \<in> set (met_rows met).
                     \<forall>x \<in> set (minute_rows met (floor_min (Time r))). windspeed_kmh x = None))"
    unfolding align_met_sorted [OF assms] e [symmetric] by auto
qed

text \<open>
  The rows at 12:00:05 and 12:00:40 with wind speeds 3 and 7 collapse to the key 12:00:00
  with wind 7 and the heading of the 7-reading, when the file has a heading column.
\<close>

lemma minute_alignment_example:
  "align_met (met_frame [wind_frame True
       [wind_sample (seconds 43205) (Some 1) (Some 3) (Some 90),
        wind_sample (seconds 43240) (Some 2) (Some 7) (Some 180)]])
   = Inr [(seconds 43200, wind_sample (seconds 43240) (Some 2) (Some 7) (Some 180))]"
  by code_simp

text \<open>
  A stream with wind speeds in which the minute 12:01 has none: the alignment raises as well,
  from \<^verbatim>\<open>idxmax\<close>.
\<close>

lemma minute_without_wind_fails:
  "align_met (met_frame [wind_frame True
       [wind_sample (seconds 43205) (Some 1) (Some 3) (Some 90),
        wind_sample (seconds 43270) (Some 2) None None,
        wind_sample (seconds 43290) (Some 3) None None]])
   = Inl IdxmaxError"
  by code_simp

text \<open>
  C7 on a file that has a wind speed column and no heading column: the two rows of the
  minute 12:00 should collapse to one record with wind speed 7, a missing heading and the
  other fields of the row at 12:00:40. Instead the alignment raises a \<^verbatim>\<open>KeyError\<close>, and with it
  the ingest and the whole run: no aligned record is produced.
\<close>

theorem wind_without_heading_column_fails:
  "align_met (met_frame [wind_frame False
       [wind_sample (seconds 43205) (Some 1) (Some 3) None,
        wind_sample (seconds 43240) (Some 2) (Some 7) None]])
   = Inl KeyError
   \<and> ingest_import_folder wind_file_disk = Inl KeyError
   \<and> main strftime wind_file_disk = Inl KeyError"
proof -
  have a: "align_met (met_frame [wind_frame False
       [wind_sample (seconds 43205) (Some 1) (Some 3) None,
        wind_sample (seconds 43240) (Some 2) (Some 7) None]])
   = Inl KeyError"
    by code_simp
  have "isl (ingest_import_folder wind_file_disk)
        \<and> projl (ingest_import_folder wind_file_disk) = KeyError"
    by code_simp
  then have b: "ingest_import_folder wind_file_disk = Inl KeyError"
    by (cases "ingest_import_folder wind_file_disk") auto
  then have c: "main strftime wind_file_disk = Inl KeyError"
    by (simp add: main_def)
  show ?thesis using a b c by simp
qed

end
